theory Spec2Isabelle
  imports Complex_Main
begin

section \<open>EthicaDL backend: job records, hooks, output resolution\<close>

text \<open>
  A shallow embedding of \<^verbatim>\<open>src/app.py\<close>. Python strings are \<open>string\<close> (ASCII is
  modelled exactly). A dictionary entry that the code only tests for truth, or stores as
  it is, is an \<open>option\<close> value (\<open>None\<close> for a missing key or a Python
  \<open>None\<close>); where the code tells a missing key from a \<open>None\<close>, the entry is an
  \<open>option\<close> of an \<open>option\<close>. Numbers are the exact rational values of Python's
  integers and floats, and every exception the code can raise is a value of
  \<open>py_error\<close>.
\<close>

subsection \<open>Python values\<close>

datatype py_error = ValueError string | TypeError string | OtherError string

text \<open>Truthiness of an optional string: \<open>None\<close> and \<open>""\<close> are falsy.\<close>

fun truthy :: "string option \<Rightarrow> bool" where
  "truthy None = False"
| "truthy (Some s) = (s \<noteq> [])"

text \<open>Python's \<open>a or b\<close> on optional strings.\<close>

definition py_or :: "string option \<Rightarrow> string option \<Rightarrow> string option" where
  "py_or a b = (if truthy a then a else b)"

text \<open>Truthiness of an optional number: \<open>None\<close> and \<open>0\<close> are falsy.\<close>

fun truthy_num :: "rat option \<Rightarrow> bool" where
  "truthy_num None = False"
| "truthy_num (Some x) = (x \<noteq> 0)"

definition num_or :: "rat option \<Rightarrow> rat option \<Rightarrow> rat option" where
  "num_or a b = (if truthy_num a then a else b)"

text \<open>
  Floats are IEEE binary64 numbers, modelled by their exact rational values. The result
  of an arithmetic operation is the exact result rounded to the nearest number with a
  53-bit significand, ties to the even significand (\<open>double_of\<close>). The exponent
  range is not bounded: overflow and subnormal numbers are left out, byte counters and
  percentages being far from both.
\<close>

definition round_half_even :: "rat \<Rightarrow> int" where
  "round_half_even y =
     (let f = \<lfloor>y\<rfloor>; r = y - of_int f
      in if r < 1 / 2 then f
         else if 1 / 2 < r then f + 1
         else if even f then f else f + 1)"

text \<open>The binary exponent of a positive number: \<open>2 ^ binade x \<le> x < 2 ^ (binade x + 1)\<close>.\<close>

function binade :: "rat \<Rightarrow> int" where
  "binade x =
     (if x \<le> 0 then 0
      else if 2 \<le> x then binade (x / 2) + 1
      else if x < 1 then binade (x * 2) - 1
      else 0)"
  by pat_completeness auto
termination
proof (relation "measure (\<lambda>x. nat \<lfloor>x\<rfloor> + 2 * nat \<lceil>1 / x\<rceil>)")
  show "wf (measure (\<lambda>x :: rat. nat \<lfloor>x\<rfloor> + 2 * nat \<lceil>1 / x\<rceil>))" by simp
next
  fix x :: rat
  assume a: "\<not> x \<le> 0" "2 \<le> x"
  have f: "\<lfloor>x / 2\<rfloor> < \<lfloor>x\<rfloor>" using a by linarith
  have "0 < 1 / x" "1 / x \<le> 1" using a by (simp_all add: field_simps)
  then have c1: "\<lceil>1 / x\<rceil> = 1" by (simp add: ceiling_eq_iff)
  have "0 < 1 / (x / 2)" "1 / (x / 2) \<le> 1" using a by (simp_all add: field_simps)
  then have c2: "\<lceil>1 / (x / 2)\<rceil> = 1" by (simp add: ceiling_eq_iff)
  have "0 \<le> \<lfloor>x / 2\<rfloor>" using a by simp
  then show "(x / 2, x) \<in> measure (\<lambda>x. nat \<lfloor>x\<rfloor> + 2 * nat \<lceil>1 / x\<rceil>)"
    using a f c1 c2 by simp
next
  fix x :: rat
  assume a: "\<not> x \<le> 0" "\<not> 2 \<le> x" "x < 1"
  have f1: "\<lfloor>x\<rfloor> = 0" using a by (simp add: floor_eq_iff)
  have f2: "\<lfloor>x * 2\<rfloor> \<le> 1" using a by (simp add: floor_le_iff)
  have y: "1 < 1 / x" using a by (simp add: field_simps)
  define n where "n = \<lceil>1 / x\<rceil>"
  define z where "z = 1 / x"
  have n2: "2 \<le> n" using y unfolding n_def by linarith
  then have n2': "(2::rat) \<le> of_int n" by simp
  have "z \<le> of_int n" unfolding n_def z_def by (rule le_of_int_ceiling)
  with n2' have "z / 2 \<le> of_int n - 1" by linarith
  then have "z / 2 \<le> of_int (n - 1)" by simp
  then have "\<lceil>z / 2\<rceil> \<le> n - 1" by (simp only: ceiling_le_iff)
  then have "\<lceil>1 / x / 2\<rceil> < \<lceil>1 / x\<rceil>" unfolding n_def z_def by simp
  moreover have "0 < \<lceil>1 / x / 2\<rceil>" using a by simp
  ultimately have B: "nat \<lceil>1 / (x * 2)\<rceil> < nat \<lceil>1 / x\<rceil>" by simp
  have A: "nat \<lfloor>x * 2\<rfloor> \<le> 1" using f2 by linarith
  have C: "nat \<lfloor>x\<rfloor> = 0" using f1 by simp
  show "(x * 2, x) \<in> measure (\<lambda>x. nat \<lfloor>x\<rfloor> + 2 * nat \<lceil>1 / x\<rceil>)"
    unfolding in_measure using A B C by linarith
qed

declare binade.simps [simp del]

text \<open>The unit in the last place of the binade of a positive number.\<close>

definition ulp :: "rat \<Rightarrow> rat" where
  "ulp x = 2 powi (binade x - 52)"

definition double_of :: "rat \<Rightarrow> rat" where
  "double_of x =
     (if x = 0 then 0
      else sgn x * of_int (round_half_even (\<bar>x\<bar> / ulp \<bar>x\<bar>)) * ulp \<bar>x\<bar>)"

text \<open>
  \<open>round(x, 2)\<close> on a float: the exact value of \<open>x\<close> rounded to two decimals,
  ties to the even neighbour, and the float nearest to that decimal.
\<close>

definition py_round2 :: "rat \<Rightarrow> rat" where
  "py_round2 x = double_of (of_int (round_half_even (x * 100)) / 100)"

subsection \<open>Job records and fetcher events\<close>

datatype job_state = Queued | Starting | Downloading | Processing | Finished | Error

record job =
  job_id :: string
  state :: job_state
  progress :: "rat option"
  eta :: "rat option"
  speed :: "rat option"
  ready :: bool
  job_file :: "string option"
  error :: "string option"
  video_id :: "string option"
  filename :: "string option"
  pp_filename :: "string option"
  start_ts :: rat
  merge_ext :: string

text \<open>The info dictionary of the fetcher (the keys the code reads).\<close>

record info_dict =
  info_id :: "string option"
  info_title :: "string option"
  info_ext :: "string option"
  info_filename :: "string option"
  info_filepath :: "string option"

definition empty_info :: info_dict where
  "empty_info = \<lparr>info_id = None, info_title = None, info_ext = None,
                  info_filename = None, info_filepath = None\<rparr>"

text \<open>The dictionary \<open>d\<close> handed to a progress or postprocessor hook.\<close>

record event =
  d_status :: "string option"
  d_info_dict :: "info_dict option"
  d_total_bytes :: "rat option"
  d_total_bytes_estimate :: "rat option"
  d_downloaded_bytes :: "rat option option"
  d_eta :: "rat option"
  d_speed :: "rat option"
  d_filename :: "string option"

type_synonym jobs = "string \<rightharpoonup> job"

subsection \<open>The progress hook and the postprocessor hook\<close>

text \<open>
  The body of \<open>hook\<close> on the job record it finds (lines 247 to 269). The values
  \<open>total\<close>, \<open>downloaded\<close>, \<open>percent\<close> and \<open>info\<close> of lines 248 to 251 are
  functions of the event. Line 251 divides: when the total is truthy and
  \<open>downloaded_bytes\<close> is present as \<open>None\<close>, it raises \<open>TypeError\<close>, before
  anything is stored. The byte counters are integers or floats (an integer next to a
  float being below \<open>2 ^ 53\<close>), so the quotient is the exact quotient rounded once.
\<close>

definition total_of :: "event \<Rightarrow> rat" where
  "total_of d =
     (case num_or (num_or (d_total_bytes d) (d_total_bytes_estimate d)) (Some 0) of
        None \<Rightarrow> 0 | Some t \<Rightarrow> t)"

text \<open>\<open>d.get("downloaded_bytes", 0)\<close>: the default stands in for a missing key only.\<close>

definition downloaded_of :: "event \<Rightarrow> rat option" where
  "downloaded_of d = (case d_downloaded_bytes d of None \<Rightarrow> Some 0 | Some v \<Rightarrow> v)"

definition percent_of :: "event \<Rightarrow> py_error + rat option" where
  "percent_of d =
     (if total_of d \<noteq> 0 then
        (case downloaded_of d of
           None \<Rightarrow> Inl (TypeError ''unsupported operand type(s) for /'')
         | Some n \<Rightarrow> Inr (Some (py_round2 (double_of (double_of (n / total_of d) * 100)))))
      else Inr None)"

definition info_of :: "event \<Rightarrow> info_dict" where
  "info_of d = (case d_info_dict d of None \<Rightarrow> empty_info | Some i \<Rightarrow> i)"

text \<open>Lines 252 to 269: the updates, given the value of \<open>percent\<close>.\<close>

definition hook_job :: "event \<Rightarrow> rat option \<Rightarrow> job \<Rightarrow> job" where
  "hook_job d percent job =
     (let status = d_status d;
          info = info_of d;
          job1 = (if truthy (info_id info) then job\<lparr>video_id := info_id info\<rparr> else job);
          job2 = (if truthy (d_filename d) then job1\<lparr>filename := d_filename d\<rparr> else job1)
      in if status = Some ''downloading'' then
           job2\<lparr>state := Downloading, progress := percent, eta := d_eta d, speed := d_speed d\<rparr>
         else if status = Some ''finished'' then
           job2\<lparr>state := Processing, progress := Some 100\<rparr>
         else job2)"

text \<open>
  \<open>hook\<close> under the lock: a missing job record is tolerated, and an exception of
  line 251 leaves the registry as it was.
\<close>

definition hook :: "string \<Rightarrow> event \<Rightarrow> jobs \<Rightarrow> py_error + jobs" where
  "hook jid d js =
     (case js jid of
        None \<Rightarrow> Inr js
      | Some job \<Rightarrow>
          (case percent_of d of
             Inl e \<Rightarrow> Inl e
           | Inr percent \<Rightarrow> Inr (js(jid \<mapsto> hook_job d percent job))))"

definition pp_hook :: "string \<Rightarrow> event \<Rightarrow> jobs \<Rightarrow> jobs" where
  "pp_hook jid d js =
     (if d_status d = Some ''finished'' then
        (let info = info_of d;
             fp = py_or (py_or (info_filepath info) (info_filename info)) (d_filename d)
         in if truthy fp then
              (case js jid of None \<Rightarrow> js | Some job \<Rightarrow> js(jid \<mapsto> job\<lparr>pp_filename := fp\<rparr>))
            else js)
      else js)"

subsection \<open>Strings\<close>

definition startswith :: "string \<Rightarrow> string \<Rightarrow> bool" where
  "startswith s p = (take (length p) s = p)"

text \<open>\<open>sub in s\<close>: \<open>sub\<close> occurs in \<open>s\<close> as a contiguous substring.\<close>

fun contains :: "string \<Rightarrow> string \<Rightarrow> bool" where
  "contains [] sub = (sub = [])"
| "contains (c # cs) sub = (startswith (c # cs) sub \<or> contains cs sub)"

text \<open>\<open>s.split(c)\<close> for a one-character separator.\<close>

fun split_on :: "char \<Rightarrow> string \<Rightarrow> string list" where
  "split_on c [] = [[]]"
| "split_on c (x # xs) =
     (if x = c then [] # split_on c xs
      else (case split_on c xs of [] \<Rightarrow> [[x]] | y # ys \<Rightarrow> (x # y) # ys))"

fun join :: "string \<Rightarrow> string list \<Rightarrow> string" where
  "join sep [] = []"
| "join sep [x] = x"
| "join sep (x # y # ys) = x @ sep @ join sep (y # ys)"

text \<open>\<open>s.strip(chars)\<close>.\<close>

definition strip_chars :: "char set \<Rightarrow> string \<Rightarrow> string" where
  "strip_chars cs s = rev (dropWhile (\<lambda>c. c \<in> cs) (rev (dropWhile (\<lambda>c. c \<in> cs) s)))"

text \<open>The ASCII characters for which \<open>str.isspace\<close> holds.\<close>

definition whitespace :: "char set" where
  "whitespace = {CHR '' '', CHR 0x09, CHR 0x0A, CHR 0x0B, CHR 0x0C, CHR 0x0D,
                 CHR 0x1C, CHR 0x1D, CHR 0x1E, CHR 0x1F}"

definition strip :: "string \<Rightarrow> string" where
  "strip s = strip_chars whitespace s"

text \<open>\<open>s.lower()\<close> on ASCII.\<close>

definition lower_char :: "char \<Rightarrow> char" where
  "lower_char c =
     (case map_of (zip ''ABCDEFGHIJKLMNOPQRSTUVWXYZ'' ''abcdefghijklmnopqrstuvwxyz'') c of
        None \<Rightarrow> c | Some l \<Rightarrow> l)"

definition lower :: "string \<Rightarrow> string" where
  "lower s = map lower_char s"

subsection \<open>URLs (urllib.parse)\<close>

text \<open>
  \<open>urlparse\<close> and \<open>parse_qs\<close> on ASCII strings. A network location with a
  bracketed host is checked by the \<open>ipaddress\<close> module; that check is the parameter
  \<open>host_ok\<close>. Percent-decoded bytes above \<open>0x7F\<close> are kept as bytes.
\<close>

record url_parts =
  u_scheme :: string
  u_netloc :: string
  u_path :: string
  u_params :: string
  u_query :: string
  u_fragment :: string

definition ascii_letters :: string where
  "ascii_letters = ''abcdefghijklmnopqrstuvwxyzABCDEFGHIJKLMNOPQRSTUVWXYZ''"

definition scheme_chars :: string where
  "scheme_chars = ascii_letters @ ''0123456789+-.''"

definition uses_params :: "string list" where
  "uses_params = [[], ''ftp'', ''hdl'', ''prospero'', ''http'', ''imap'', ''https'',
                  ''shttp'', ''rtsp'', ''rtsps'', ''rtspu'', ''sip'', ''sips'', ''mms'',
                  ''sftp'', ''tel'']"

text \<open>\<open>s.partition(c)\<close>: the text before the first \<open>c\<close> and the text after it.\<close>

definition before :: "char \<Rightarrow> string \<Rightarrow> string" where
  "before c s = takeWhile (\<lambda>x. x \<noteq> c) s"

definition after :: "char \<Rightarrow> string \<Rightarrow> string" where
  "after c s = drop 1 (dropWhile (\<lambda>x. x \<noteq> c) s)"

definition urlsplit :: "(string \<Rightarrow> bool) \<Rightarrow> string \<Rightarrow> py_error + url_parts" where
  "urlsplit host_ok url0 =
     (let url1 = filter (\<lambda>c. c \<notin> {CHR 0x09, CHR 0x0D, CHR 0x0A})
                   (dropWhile (\<lambda>c. of_char c \<le> (32 :: nat)) url0);
          pre = before CHR '':'' url1;
          has_scheme = (CHR '':'' \<in> set url1 \<and> pre \<noteq> [] \<and> hd url1 \<in> set ascii_letters
                        \<and> list_all (\<lambda>c. c \<in> set scheme_chars) pre);
          sch = (if has_scheme then lower pre else []);
          url2 = (if has_scheme then after CHR '':'' url1 else url1);
          has_netloc = startswith url2 ''//'';
          nl = (if has_netloc then takeWhile (\<lambda>c. c \<notin> set ''/?#'') (drop 2 url2) else []);
          url3 = (if has_netloc then dropWhile (\<lambda>c. c \<notin> set ''/?#'') (drop 2 url2) else url2)
      in if has_netloc \<and> ((CHR ''['' \<in> set nl) \<noteq> (CHR '']'' \<in> set nl))
         then Inl (ValueError ''Invalid IPv6 URL'')
         else if has_netloc \<and> CHR ''['' \<in> set nl \<and> CHR '']'' \<in> set nl
                 \<and> \<not> host_ok (before CHR '']'' (after CHR ''['' nl))
         then Inl (ValueError ''invalid bracketed host'')
         else Inr \<lparr>u_scheme = sch, u_netloc = nl,
                   u_path = before CHR ''?'' (before CHR ''#'' url3),
                   u_params = [],
                   u_query = after CHR ''?'' (before CHR ''#'' url3),
                   u_fragment = after CHR ''#'' url3\<rparr>)"

text \<open>The parameters are split off the last segment of the path.\<close>

definition splitparams :: "string \<Rightarrow> string \<times> string" where
  "splitparams url =
     (let seg = rev (takeWhile (\<lambda>c. c \<noteq> CHR ''/'') (rev url));
          dir = take (length url - length seg) url
      in if CHR '';'' \<in> set seg then (dir @ before CHR '';'' seg, after CHR '';'' seg)
         else (url, []))"

definition urlparse :: "(string \<Rightarrow> bool) \<Rightarrow> string \<Rightarrow> py_error + url_parts" where
  "urlparse host_ok url =
     (case urlsplit host_ok url of
        Inl e \<Rightarrow> Inl e
      | Inr r \<Rightarrow>
          (if u_scheme r \<in> set uses_params \<and> CHR '';'' \<in> set (u_path r)
           then Inr (r\<lparr>u_path := fst (splitparams (u_path r)),
                       u_params := snd (splitparams (u_path r))\<rparr>)
           else Inr r))"

definition hexval :: "char \<Rightarrow> nat option" where
  "hexval c = map_of (zip ''0123456789abcdefABCDEF''
                 [0, 1, 2, 3, 4, 5, 6, 7, 8, 9, 10, 11, 12, 13, 14, 15, 10, 11, 12, 13, 14, 15]) c"

text \<open>\<open>unquote\<close>: a percent sign followed by two hexadecimal digits is one byte.\<close>

fun unquote :: "string \<Rightarrow> string" where
  "unquote [] = []"
| "unquote [c] = [c]"
| "unquote [c, a] = c # unquote [a]"
| "unquote (c # a # b # rest) =
     (if c = CHR ''%'' then
        (case (hexval a, hexval b) of
           (Some x, Some y) \<Rightarrow> char_of (16 * x + y) # unquote rest
         | _ \<Rightarrow> c # unquote (a # b # rest))
      else c # unquote (a # b # rest))"

definition unquote_plus :: "string \<Rightarrow> string" where
  "unquote_plus s = unquote (map (\<lambda>c. if c = CHR ''+'' then CHR '' '' else c) s)"

text \<open>\<open>parse_qsl\<close> with its defaults: fields without a value are dropped.\<close>

definition parse_field :: "string \<Rightarrow> (string \<times> string) list" where
  "parse_field name_value =
     (if name_value \<noteq> [] \<and> after CHR ''='' name_value \<noteq> []
      then [(unquote_plus (before CHR ''='' name_value),
             unquote_plus (after CHR ''='' name_value))]
      else [])"

definition parse_qsl :: "string \<Rightarrow> (string \<times> string) list" where
  "parse_qsl qs = (if qs = [] then [] else concat (map parse_field (split_on CHR ''&'' qs)))"

text \<open>\<open>parse_qs(qs)\<close> as a dictionary: the values of a name, in order.\<close>

definition parse_qs :: "string \<Rightarrow> string \<rightharpoonup> string list" where
  "parse_qs qs k =
     (let vs = map snd (filter (\<lambda>nv. fst nv = k) (parse_qsl qs))
      in if vs = [] then None else Some vs)"

subsection \<open>URL normalisation\<close>

definition watch_url :: "string \<Rightarrow> string" where
  "watch_url vid = ''https://www.youtube.com/watch?v='' @ vid"

text \<open>
  \<open>normalize_youtube_url\<close>: any exception inside the \<open>try\<close> (the \<open>ValueError\<close>
  of \<open>urlparse\<close>) ends in \<open>return u\<close>.
\<close>

definition normalize_youtube_url :: "(string \<Rightarrow> bool) \<Rightarrow> string \<Rightarrow> string" where
  "normalize_youtube_url host_ok u =
     (case urlparse host_ok u of
        Inl e \<Rightarrow> u
      | Inr p \<Rightarrow>
          (let host = lower (u_netloc p);
               path = u_path p;
               parts = split_on CHR ''/'' (strip_chars {CHR ''/''} path);
               vid0 = (case parts of [] \<Rightarrow> [] | v # vs \<Rightarrow> v);
               vid1 = (if 1 < length parts then parts ! 1 else [])
           in if contains host ''youtu.be'' \<and> vid0 \<noteq> [] then watch_url vid0
              else if contains host ''youtube.com'' then
                (if startswith path ''/shorts/'' \<and> vid1 \<noteq> [] then watch_url vid1
                 else if startswith path ''/watch'' then
                   (case parse_qs (u_query p) ''v'' of
                      None \<Rightarrow> u
                    | Some vs \<Rightarrow> watch_url (hd vs))
                 else u)
              else u))"

text \<open>The characters of a video identifier: letters, digits, \<open>_\<close> and \<open>-\<close>.\<close>

definition id_char :: "char \<Rightarrow> bool" where
  "id_char c = (c \<in> set (ascii_letters @ ''0123456789_-''))"

text \<open>A host check that accepts no bracketed host.\<close>

definition reject_host :: "string \<Rightarrow> bool" where
  "reject_host h = False"

subsection \<open>Paths (pathlib, POSIX flavour)\<close>

text \<open>
  A \<open>Path\<close> is its root (\<open>""\<close>, \<open>"/"\<close> or \<open>"//"\<close>) and its components; parsing
  drops empty and \<open>"."\<close> components, as pathlib does.
\<close>

record path =
  root :: string
  parts :: "string list"

definition Path :: "string \<Rightarrow> path" where
  "Path s =
     (let n = length (takeWhile (\<lambda>c. c = CHR ''/'') s)
      in \<lparr>root = (if n = 0 then [] else if n = 2 then ''//'' else ''/''),
          parts = filter (\<lambda>x. x \<noteq> [] \<and> x \<noteq> ''.'') (split_on CHR ''/'' s)\<rparr>)"

text \<open>\<open>str(p)\<close>.\<close>

definition path_str :: "path \<Rightarrow> string" where
  "path_str p = (let s = root p @ join ''/'' (parts p) in if s = [] then ''.'' else s)"

text \<open>\<open>p / s\<close>: a rooted right operand replaces the left one.\<close>

definition path_join :: "path \<Rightarrow> string \<Rightarrow> path" where
  "path_join p s = (if startswith s ''/'' then Path s else Path (path_str p @ ''/'' @ s))"

definition path_name :: "path \<Rightarrow> string" where
  "path_name p = (if parts p = [] then [] else last (parts p))"

text \<open>\<open>p.suffix\<close>: from the last dot of the name, unless that dot is first or last.\<close>

definition path_suffix :: "path \<Rightarrow> string" where
  "path_suffix p =
     (let name = path_name p;
          after = rev (takeWhile (\<lambda>c. c \<noteq> CHR ''.'') (rev name))
      in if CHR ''.'' \<in> set name \<and> length after + 1 < length name \<and> after \<noteq> []
         then CHR ''.'' # after else [])"

definition with_suffix :: "path \<Rightarrow> string \<Rightarrow> py_error + path" where
  "with_suffix p suffix =
     (if CHR ''/'' \<in> set suffix then Inl (ValueError ''Invalid suffix'')
      else if (suffix \<noteq> [] \<and> \<not> startswith suffix ''.'') \<or> suffix = ''.''
        then Inl (ValueError ''Invalid suffix'')
      else if path_name p = [] then Inl (ValueError ''empty name'')
      else
        (let name = path_name p;
             old_suffix = path_suffix p;
             name' = (if old_suffix = [] then name @ suffix
                      else take (length name - length old_suffix) name @ suffix)
         in Inr (p\<lparr>parts := butlast (parts p) @ [name']\<rparr>)))"

definition DOWNLOAD_DIR :: path where
  "DOWNLOAD_DIR = Path ''downloads''"

subsection \<open>The file system\<close>

text \<open>
  The file system is the list of the entries that exist, each with its path as pathlib
  prints it, its modification time and its size, in the order in which a directory scan
  yields them. The output directory is flat: its listing is the entries
  \<open>downloads/<name>\<close>.
\<close>

record fs_entry =
  e_path :: string
  e_mtime :: rat
  e_size :: nat

type_synonym fs = "fs_entry list"

definition exists :: "fs \<Rightarrow> path \<Rightarrow> bool" where
  "exists fs p = (path_str p \<in> set (map e_path fs))"

text \<open>The name of an entry of the output directory, if it is one.\<close>

definition child_name :: "fs_entry \<Rightarrow> string option" where
  "child_name e =
     (let pre = path_str DOWNLOAD_DIR @ ''/''; name = drop (length pre) (e_path e)
      in if startswith (e_path e) pre \<and> name \<noteq> [] \<and> CHR ''/'' \<notin> set name
         then Some name else None)"

subsection \<open>Glob patterns (fnmatch)\<close>

text \<open>
  One element of a translated pattern: \<open>*\<close>, \<open>?\<close>, a literal character, or a
  bracket expression. A bracket expression is a list of chunks: every character of a
  chunk belongs to the set, and between two neighbouring chunks lies the range from the
  last character of the first to the first character of the second.
\<close>

datatype glob_item = Star | AnyChar | Never | Lit char | CharClass bool "string list"

text \<open>
  Splitting the text between the brackets at the hyphens that form ranges: a hyphen
  counts once \<open>skip\<close> characters of the current chunk have been passed.
\<close>

fun chunks_aux :: "nat \<Rightarrow> string \<Rightarrow> string \<Rightarrow> string list" where
  "chunks_aux skip cur [] = [rev cur]"
| "chunks_aux skip cur (c # cs) =
     (if c = CHR ''-'' \<and> skip = 0 then rev cur # chunks_aux 2 [] cs
      else chunks_aux (skip - 1) (c # cur) cs)"

definition range_chunks :: "string \<Rightarrow> string list" where
  "range_chunks stuff =
     (let cs = chunks_aux (if startswith stuff ''!'' then 2 else 1) [] stuff
      in if last cs = [] \<and> 1 < length cs
         then butlast (butlast cs) @ [last (butlast cs) @ ''-'']
         else cs)"

text \<open>Ranges whose start lies after their end are removed, from the right.\<close>

fun drop_empty_ranges :: "string list \<Rightarrow> string list" where
  "drop_empty_ranges [] = []"
| "drop_empty_ranges [a] = [a]"
| "drop_empty_ranges (a # b # bs) =
     (case drop_empty_ranges (b # bs) of
        [] \<Rightarrow> [a]
      | b' # bs' \<Rightarrow>
          (if a \<noteq> [] \<and> b' \<noteq> [] \<and> (of_char (hd b') :: nat) < of_char (last a)
           then (butlast a @ tl b') # bs' else a # b' # bs'))"

definition bracket_item :: "string \<Rightarrow> glob_item" where
  "bracket_item stuff =
     (let chunks = (if CHR ''-'' \<in> set stuff then drop_empty_ranges (range_chunks stuff)
                    else [stuff])
      in if chunks = [[]] then Never
         else if chunks = [''!''] then AnyChar
         else (case chunks of
                 (CHR ''!'' # c) # cs \<Rightarrow> CharClass True (c # cs)
               | _ \<Rightarrow> CharClass False chunks))"

text \<open>
  \<open>fnmatch.translate\<close>: a \<open>[\<close> opens a bracket expression when a closing \<open>]\<close>
  follows (a \<open>]\<close> directly after \<open>[\<close> or \<open>[!\<close> does not close it); otherwise it
  is a literal.
\<close>

function translate :: "string \<Rightarrow> glob_item list" where
  "translate [] = []"
| "translate (c # pat) =
     (if c = CHR ''*'' then Star # translate pat
      else if c = CHR ''?'' then AnyChar # translate pat
      else if c = CHR ''['' then
        (let pre1 = (if startswith pat ''!'' then ''!'' else []);
             r1 = drop (length pre1) pat;
             pre2 = (if startswith r1 '']'' then '']'' else []);
             r2 = drop (length pre2) r1;
             body = takeWhile (\<lambda>x. x \<noteq> CHR '']'') r2;
             after = dropWhile (\<lambda>x. x \<noteq> CHR '']'') r2
         in if after = [] then Lit CHR ''['' # translate pat
            else bracket_item (pre1 @ pre2 @ body) # translate (tl after))
      else Lit c # translate pat)"
  by pat_completeness auto
termination
proof (relation "measure length")
  fix c :: char and pat pre1 r1 pre2 r2 body after :: string
  assume a: "after = dropWhile (\<lambda>x. x \<noteq> CHR '']'') r2" "r2 = drop (length pre2) r1"
    "r1 = drop (length pre1) pat" "after \<noteq> []"
  have "length (tl after) < length after" using a(4) by (cases after) auto
  also have "length after \<le> length r2" unfolding a(1) by (rule length_dropWhile_le)
  also have "\<dots> \<le> length pat" unfolding a(2,3) by simp
  finally show "(tl after, c # pat) \<in> measure length" by simp
qed auto

text \<open>Whether one character belongs to a bracket expression.\<close>

fun in_chunks :: "string list \<Rightarrow> char \<Rightarrow> bool" where
  "in_chunks [] c = False"
| "in_chunks [a] c = (c \<in> set a)"
| "in_chunks (a # b # bs) c =
     (c \<in> set a
      \<or> (a \<noteq> [] \<and> b \<noteq> [] \<and> (of_char (last a) :: nat) \<le> of_char c
            \<and> (of_char c :: nat) \<le> of_char (hd b))
      \<or> in_chunks (b # bs) c)"

fun fnmatch_items :: "glob_item list \<Rightarrow> string \<Rightarrow> bool" where
  "fnmatch_items [] s = (s = [])"
| "fnmatch_items (Star # ps) [] = fnmatch_items ps []"
| "fnmatch_items (Star # ps) (c # cs) =
     (fnmatch_items ps (c # cs) \<or> fnmatch_items (Star # ps) cs)"
| "fnmatch_items (Never # ps) s = False"
| "fnmatch_items (AnyChar # ps) [] = False"
| "fnmatch_items (AnyChar # ps) (c # cs) = fnmatch_items ps cs"
| "fnmatch_items (Lit x # ps) [] = False"
| "fnmatch_items (Lit x # ps) (c # cs) = (x = c \<and> fnmatch_items ps cs)"
| "fnmatch_items (CharClass neg chunks # ps) [] = False"
| "fnmatch_items (CharClass neg chunks # ps) (c # cs) =
     ((in_chunks chunks c \<noteq> neg) \<and> fnmatch_items ps cs)"

definition fnmatch :: "string \<Rightarrow> string \<Rightarrow> bool" where
  "fnmatch name pat = fnmatch_items (translate pat) name"

text \<open>
  \<open>DOWNLOAD_DIR.glob(pat)\<close>: the entries of the output directory whose name matches,
  upper and lower case distinct, hidden entries included. A pattern with a path
  separator selects inside subdirectories, of which the flat output directory has none.
  What pathlib does with \<open>**\<close> inside a component depends on its version (an
  error, or the same as \<open>*\<close>); here it is two stars.
\<close>

definition glob :: "fs \<Rightarrow> string \<Rightarrow> fs_entry list" where
  "glob fs pat =
     (if CHR ''/'' \<in> set pat then []
      else filter (\<lambda>e. case child_name e of None \<Rightarrow> False | Some n \<Rightarrow> fnmatch n pat) fs)"

subsection \<open>The output resolver\<close>

text \<open>\<open>max(matches, key=mtime)\<close>: the first entry of greatest modification time.\<close>

fun max_mtime :: "fs_entry \<Rightarrow> fs_entry list \<Rightarrow> fs_entry" where
  "max_mtime best [] = best"
| "max_mtime best (x # xs) = max_mtime (if e_mtime best < e_mtime x then x else best) xs"

definition find_final_file :: "fs \<Rightarrow> string option \<Rightarrow> path option" where
  "find_final_file fs vid =
     (case vid of
        None \<Rightarrow> None
      | Some v \<Rightarrow>
          (if v = [] then None
           else (case glob fs (''*['' @ v @ ''].*'') of
                   [] \<Rightarrow> None
                 | m # ms \<Rightarrow> Some (Path (e_path (max_mtime m ms))))))"

text \<open>
  Step 2 (lines 125 to 138): the candidates built from the one file name hint the code
  picked. \<open>with_suffix\<close> raises on a bad extension, and nothing in the resolver
  catches it.
\<close>

definition hint_candidates :: "string \<Rightarrow> string \<Rightarrow> string \<Rightarrow> string \<Rightarrow> py_error + path list" where
  "hint_candidates hook_fn selection audio_fmt merge =
     (let base = Path hook_fn
      in if selection = ''10'' then
           (case with_suffix base (''.'' @ audio_fmt) of
              Inl e \<Rightarrow> Inl e
            | Inr a \<Rightarrow> Inr [base, a])
         else
           (case (if merge \<noteq> [] \<and> merge \<noteq> ''auto''
                  then (case with_suffix base (''.'' @ merge) of
                          Inl e \<Rightarrow> Inl e | Inr m \<Rightarrow> Inr [m])
                  else Inr []) of
              Inl e \<Rightarrow> Inl e
            | Inr ms \<Rightarrow>
                (case with_suffix base ''.mp4'' of
                   Inl e \<Rightarrow> Inl e
                 | Inr a \<Rightarrow>
                     (case with_suffix base ''.mkv'' of
                        Inl e \<Rightarrow> Inl e
                      | Inr b \<Rightarrow> Inr ([base] @ ms @ [a, b])))))"

text \<open>Step 3 (lines 141 to 151): the candidates built from the title.\<close>

definition title_candidates ::
  "info_dict \<Rightarrow> string option \<Rightarrow> string \<Rightarrow> string \<Rightarrow> string \<Rightarrow> path list" where
  "title_candidates info vid selection audio_fmt merge =
     (let title = strip (case py_or (info_title info) (Some []) of None \<Rightarrow> [] | Some t \<Rightarrow> t)
      in if title = [] then []
         else
           (let stem = (case vid of
                          None \<Rightarrow> title
                        | Some v \<Rightarrow> if v = [] then title else title @ '' ['' @ v @ '']'')
            in if selection = ''10'' then [path_join DOWNLOAD_DIR (stem @ ''.'' @ audio_fmt)]
               else map (\<lambda>ext. path_join DOWNLOAD_DIR (stem @ ''.'' @ ext))
                      (filter (\<lambda>ext. ext \<noteq> [])
                         (map (\<lambda>ext. lower (strip ext))
                            [if merge \<noteq> [] \<and> merge \<noteq> ''auto'' then merge else [],
                             case info_ext info of None \<Rightarrow> [] | Some e \<Rightarrow> e,
                             ''mp4'', ''mkv'', ''webm'']))))"

text \<open>
  \<open>resolve_final_file\<close>: the identifier pattern first, then the candidates of steps
  2 and 3 in order, then the newest entry of the output directory modified no earlier
  than five seconds before the job started.
\<close>

definition resolve_final_file ::
  "fs \<Rightarrow> info_dict \<Rightarrow> job \<Rightarrow> string \<Rightarrow> string \<Rightarrow> string \<Rightarrow> py_error + path option" where
  "resolve_final_file fs info job selection audio_fmt merge =
     (let vid = py_or (video_id job) (info_id info);
          sts = start_ts job;
          p = find_final_file fs vid
      in if (case p of None \<Rightarrow> False | Some q \<Rightarrow> exists fs q) then Inr p
         else
           (let hook_fn = py_or (py_or (pp_filename job) (filename job)) (info_filename info)
            in case (case hook_fn of
                       None \<Rightarrow> Inr []
                     | Some fn \<Rightarrow> if fn = [] then Inr []
                                 else hint_candidates fn selection audio_fmt merge) of
                 Inl e \<Rightarrow> Inl e
               | Inr cs \<Rightarrow>
                   (let candidates = cs @ title_candidates info vid selection audio_fmt merge
                    in case find (exists fs) candidates of
                         Some c \<Rightarrow> Inr (Some c)
                       | None \<Rightarrow>
                           (let recent = sort_key (\<lambda>q. - e_mtime q) (glob fs ''*'')
                            in Inr (map_option (\<lambda>q. Path (e_path q))
                                      (find (\<lambda>q. sts - 5 \<le> e_mtime q) recent))))))"

subsection \<open>The job runner\<close>

text \<open>
  The fetcher is external. What one call of \<open>extract_info\<close> does to the registry is
  the callbacks it makes, in order, and how it ends: it returns an info dictionary, or it
  raises. The request built for it (URL, format, headers) only decides which behaviour
  the fetcher shows, so a run takes that behaviour as its parameter.
\<close>

datatype callback = Progress event | Postprocess event

datatype fetch_result = Returned info_dict | Raised string

text \<open>
  The request payload: each key is missing, \<open>null\<close>, or a string. A \<open>null\<close>
  that the code only tests for truth or compares with a string is the empty string from
  there on; a \<open>null\<close> that it formats into a file name is the text \<open>None\<close>.
\<close>

record payload =
  p_resolution :: "string option option"
  p_merge :: "string option option"
  p_audioFmt :: "string option option"

text \<open>
  One callback, as the registry sees it. An exception of the progress hook goes to the
  fetcher, which called it; how the fetcher goes on from there is part of its behaviour.
\<close>

fun apply_callback :: "string \<Rightarrow> callback \<Rightarrow> jobs \<Rightarrow> jobs" where
  "apply_callback jid (Progress d) js = (case hook jid d js of Inl e \<Rightarrow> js | Inr js' \<Rightarrow> js')"
| "apply_callback jid (Postprocess d) js = pp_hook jid d js"

text \<open>The update of line 286.\<close>

definition set_starting :: "string \<Rightarrow> jobs \<Rightarrow> jobs" where
  "set_starting jid js =
     (case js jid of None \<Rightarrow> js
      | Some job \<Rightarrow> js(jid \<mapsto> job\<lparr>state := Starting, progress := Some 0\<rparr>))"

text \<open>The error message of an exception, \<open>str(e)\<close>.\<close>

fun str_error :: "py_error \<Rightarrow> string" where
  "str_error (ValueError m) = m"
| "str_error (TypeError m) = m"
| "str_error (OtherError m) = m"

text \<open>The update of the handler (lines 307 to 312).\<close>

definition set_error :: "string \<Rightarrow> string \<Rightarrow> jobs \<Rightarrow> jobs" where
  "set_error jid msg js =
     (case js jid of None \<Rightarrow> js
      | Some job \<Rightarrow> js(jid \<mapsto> job\<lparr>state := Error, error := Some msg\<rparr>))"

text \<open>
  After the fetcher returned there are two updates under the lock. The first (lines 294
  to 296) stores \<open>merge_ext\<close>.
\<close>

definition selection_of :: "payload \<Rightarrow> string" where
  "selection_of pl =
     (case p_resolution pl of None \<Rightarrow> ''4'' | Some None \<Rightarrow> [] | Some (Some r) \<Rightarrow> r)"

definition merge_of :: "payload \<Rightarrow> string" where
  "merge_of pl =
     (case p_merge pl of None \<Rightarrow> ''mp4'' | Some None \<Rightarrow> [] | Some (Some m) \<Rightarrow> m)"

definition audio_fmt_of :: "payload \<Rightarrow> string" where
  "audio_fmt_of pl =
     (case p_audioFmt pl of None \<Rightarrow> ''m4a'' | Some None \<Rightarrow> ''None'' | Some (Some a) \<Rightarrow> a)"

definition store_merge_ext :: "string \<Rightarrow> payload \<Rightarrow> jobs \<Rightarrow> jobs" where
  "store_merge_ext jid pl js =
     (case js jid of
        None \<Rightarrow> js
      | Some job \<Rightarrow>
          js(jid \<mapsto> job\<lparr>merge_ext :=
               (if merge_of pl \<noteq> [] \<and> merge_of pl \<noteq> ''auto'' \<and> selection_of pl \<noteq> ''10''
                then merge_of pl else [])\<rparr>))"

text \<open>
  The second (lines 297 to 305) runs the resolver on the record and finalises it; an
  exception of the resolver goes to the handler.
\<close>

definition finish :: "fs \<Rightarrow> string \<Rightarrow> payload \<Rightarrow> info_dict \<Rightarrow> jobs \<Rightarrow> jobs" where
  "finish fs jid pl info js =
     (case js jid of
        None \<Rightarrow> js
      | Some job \<Rightarrow>
          (case resolve_final_file fs info job (selection_of pl) (audio_fmt_of pl) (merge_of pl) of
             Inl e \<Rightarrow> set_error jid (str_error e) js
           | Inr final_path \<Rightarrow>
               js(jid \<mapsto> job\<lparr>state := Finished,
                              ready := (final_path \<noteq> None),
                              job_file := map_option path_str final_path,
                              error := (if final_path \<noteq> None then None
                                        else Some ''File not found after download'')\<rparr>)))"

text \<open>
  \<open>run_download\<close> as the list of registries it produces, one per update made under
  the lock: the start, each callback of the fetcher, the end.
\<close>

fun after_callbacks :: "string \<Rightarrow> callback list \<Rightarrow> jobs \<Rightarrow> jobs list" where
  "after_callbacks jid [] js = []"
| "after_callbacks jid (c # cs) js =
     apply_callback jid c js # after_callbacks jid cs (apply_callback jid c js)"

definition run_download_trace ::
  "fs \<Rightarrow> string \<Rightarrow> payload \<Rightarrow> callback list \<Rightarrow> fetch_result \<Rightarrow> jobs \<Rightarrow> jobs list" where
  "run_download_trace fs jid pl cbs res js =
     (let js1 = set_starting jid js;
          mid = after_callbacks jid cbs js1;
          js2 = last (js1 # mid)
      in js1 # mid @
         (case res of
            Raised msg \<Rightarrow> [set_error jid msg js2]
          | Returned info \<Rightarrow>
              [store_merge_ext jid pl js2, finish fs jid pl info (store_merge_ext jid pl js2)]))"

definition run_download ::
  "fs \<Rightarrow> string \<Rightarrow> payload \<Rightarrow> callback list \<Rightarrow> fetch_result \<Rightarrow> jobs \<Rightarrow> jobs" where
  "run_download fs jid pl cbs res js = last (run_download_trace fs jid pl cbs res js)"

subsection \<open>The routes\<close>

text \<open>The record \<open>api_download\<close> stores for a new job (lines 329 to 341).\<close>

definition new_job :: "string \<Rightarrow> rat \<Rightarrow> job" where
  "new_job jid now =
     \<lparr>job_id = jid, state = Queued, progress = Some 0, eta = None, speed = None,
      ready = False, job_file = None, error = None, video_id = None, filename = None,
      pp_filename = None, start_ts = now, merge_ext = []\<rparr>"

definition api_download :: "string \<Rightarrow> rat \<Rightarrow> jobs \<Rightarrow> jobs" where
  "api_download jid now js = js(jid \<mapsto> new_job jid now)"

record status_view =
  v_id :: string
  v_state :: job_state
  v_progress :: "rat option"
  v_eta :: "rat option"
  v_speed :: "rat option"
  v_ready :: bool
  v_error :: "string option"

datatype 'a response = NotFound404 | Conflict409 | Gone410 | Ok200 'a

definition api_status :: "jobs \<Rightarrow> string \<Rightarrow> status_view response" where
  "api_status js jid =
     (case js jid of
        None \<Rightarrow> NotFound404
      | Some job \<Rightarrow>
          Ok200 \<lparr>v_id = job_id job, v_state = state job, v_progress = progress job,
                 v_eta = eta job, v_speed = speed job, v_ready = ready job,
                 v_error = error job\<rparr>)"

datatype http_method = GET | HEAD

text \<open>What a successful retrieval sends: the size only, or the file.\<close>

datatype file_body = ContentLength nat | Attachment string

text \<open>
  \<open>api_file\<close> reads the registry and the file system and writes neither; the registry
  is returned with the response so that this can be stated.
\<close>

definition api_file :: "fs \<Rightarrow> http_method \<Rightarrow> string \<Rightarrow> jobs \<Rightarrow> file_body response \<times> jobs" where
  "api_file fs method jid js =
     (case js jid of
        None \<Rightarrow> (NotFound404, js)
      | Some job \<Rightarrow>
          (if \<not> ready job \<or> \<not> truthy (job_file job) then (Conflict409, js)
           else
             (let p = Path (case job_file job of None \<Rightarrow> [] | Some path \<Rightarrow> path)
              in if \<not> exists fs p then (Gone410, js)
                 else if method = HEAD then
                   (Ok200 (ContentLength
                      (case find (\<lambda>e. e_path e = path_str p) fs of
                         None \<Rightarrow> 0 | Some e \<Rightarrow> e_size e)), js)
                 else (Ok200 (Attachment (path_str p)), js))))"

subsection \<open>Sample inputs\<close>

text \<open>
  A progress event as the fetcher sends it: a status tag, the resource identifier in the
  info dictionary, and the two byte counters.
\<close>

definition progress_event :: "string \<Rightarrow> string option \<Rightarrow> rat \<Rightarrow> rat \<Rightarrow> event" where
  "progress_event st vid n tot =
     \<lparr>d_status = Some st, d_info_dict = Some (empty_info\<lparr>info_id := vid\<rparr>),
      d_total_bytes = Some tot, d_total_bytes_estimate = None,
      d_downloaded_bytes = Some (Some n), d_eta = None, d_speed = None,
      d_filename = None\<rparr>"

definition file_entry :: "string \<Rightarrow> rat \<Rightarrow> fs_entry" where
  "file_entry p t = \<lparr>e_path = p, e_mtime = t, e_size = 1\<rparr>"

subsection \<open>Runs and interleavings\<close>

text \<open>
  The state machine in three phases: before the fetcher reports anything, while it
  reports (\<open>downloading\<close> and \<open>processing\<close> share a phase), and after the end.
\<close>

fun phase :: "job_state \<Rightarrow> nat" where
  "phase Queued = 0"
| "phase Starting = 1"
| "phase Downloading = 2"
| "phase Processing = 2"
| "phase Finished = 3"
| "phase Error = 3"

definition mid_state :: "job_state \<Rightarrow> bool" where
  "mid_state s = (s = Starting \<or> s = Downloading \<or> s = Processing)"

text \<open>The state of job \<open>jid\<close> in each registry of a list.\<close>

definition states_of :: "string \<Rightarrow> jobs list \<Rightarrow> job_state list" where
  "states_of jid tr = map (\<lambda>js. state (the (js jid))) tr"

definition default_payload :: payload where
  "default_payload = \<lparr>p_resolution = None, p_merge = None, p_audioFmt = None\<rparr>"

text \<open>
  Several jobs at once. Every update of the registry is made under \<open>jobs_lock\<close>, so
  an execution is a sequence of the locked blocks of the threads, in any interleaving.
  Besides the registry, a system state holds where each job's thread stands:
  spawned by \<open>api_download\<close>, inside \<open>extract_info\<close>, between the two final
  updates (holding the info dictionary the fetcher returned), or done. A new job
  identifier is taken to be fresh. The file system may differ at every step.
\<close>

datatype pc = Spawned | Fetching | Resolving info_dict | Done

record system =
  registry :: jobs
  threads :: "string \<rightharpoonup> pc"

inductive reachable :: "system \<Rightarrow> bool" where
  init: "reachable \<lparr>registry = Map.empty, threads = Map.empty\<rparr>"
| submit: "reachable s \<Longrightarrow> registry s jid = None \<Longrightarrow> threads s jid = None \<Longrightarrow>
     reachable \<lparr>registry = api_download jid now (registry s),
                threads = (threads s)(jid \<mapsto> Spawned)\<rparr>"
| start: "reachable s \<Longrightarrow> threads s jid = Some Spawned \<Longrightarrow>
     reachable \<lparr>registry = set_starting jid (registry s),
                threads = (threads s)(jid \<mapsto> Fetching)\<rparr>"
| callback: "reachable s \<Longrightarrow> threads s jid = Some Fetching \<Longrightarrow>
     reachable (s\<lparr>registry := apply_callback jid c (registry s)\<rparr>)"
| raised: "reachable s \<Longrightarrow> threads s jid = Some Fetching \<Longrightarrow>
     reachable \<lparr>registry = set_error jid msg (registry s),
                threads = (threads s)(jid \<mapsto> Done)\<rparr>"
| returned: "reachable s \<Longrightarrow> threads s jid = Some Fetching \<Longrightarrow>
     reachable \<lparr>registry = store_merge_ext jid pl (registry s),
                threads = (threads s)(jid \<mapsto> Resolving info)\<rparr>"
| finished: "reachable s \<Longrightarrow> threads s jid = Some (Resolving info) \<Longrightarrow>
     reachable \<lparr>registry = finish fs jid pl info (registry s),
                threads = (threads s)(jid \<mapsto> Done)\<rparr>"
| retrieve: "reachable s \<Longrightarrow>
     reachable (s\<lparr>registry := snd (api_file fs method jid (registry s))\<rparr>)"

text \<open>
  One step of an execution, as a relation between system states: the rules of
  \<open>reachable\<close>, each as the step it takes. The reachable states are those that finitely
  many steps lead to from the empty registry.
\<close>

inductive step :: "system \<Rightarrow> system \<Rightarrow> bool" where
  submit: "registry s jid = None \<Longrightarrow> threads s jid = None \<Longrightarrow>
     step s \<lparr>registry = api_download jid now (registry s),
             threads = (threads s)(jid \<mapsto> Spawned)\<rparr>"
| start: "threads s jid = Some Spawned \<Longrightarrow>
     step s \<lparr>registry = set_starting jid (registry s),
             threads = (threads s)(jid \<mapsto> Fetching)\<rparr>"
| callback: "threads s jid = Some Fetching \<Longrightarrow>
     step s (s\<lparr>registry := apply_callback jid c (registry s)\<rparr>)"
| raised: "threads s jid = Some Fetching \<Longrightarrow>
     step s \<lparr>registry = set_error jid msg (registry s),
             threads = (threads s)(jid \<mapsto> Done)\<rparr>"
| returned: "threads s jid = Some Fetching \<Longrightarrow>
     step s \<lparr>registry = store_merge_ext jid pl (registry s),
             threads = (threads s)(jid \<mapsto> Resolving info)\<rparr>"
| finished: "threads s jid = Some (Resolving info) \<Longrightarrow>
     step s \<lparr>registry = finish fs jid pl info (registry s),
             threads = (threads s)(jid \<mapsto> Done)\<rparr>"
| retrieve: "step s (s\<lparr>registry := snd (api_file fs meth jid (registry s))\<rparr>)"

text \<open>A system state with one job, finished with its file found.\<close>

definition sample_fs :: fs where
  "sample_fs = [file_entry ''downloads/clip-abc.mp4'' 10]"

definition sample_system :: system where
  "sample_system =
     \<lparr>registry = finish sample_fs ''j'' default_payload empty_info
        (store_merge_ext ''j'' default_payload
          (apply_callback ''j'' (Progress (progress_event ''finished'' (Some ''abc'') 100 100))
            (set_starting ''j'' (api_download ''j'' 0 Map.empty)))),
      threads = [''j'' \<mapsto> Done]\<rparr>"

text \<open>
  What holds of a job record given where its thread stands: before the end nothing of
  the result is set; after it, a ready record has its file and no error.
\<close>

definition job_ok :: "pc option \<Rightarrow> job \<Rightarrow> bool" where
  "job_ok p j =
     (p \<noteq> None
      \<and> (if p = Some Done then (if ready j then job_file j \<noteq> None \<and> error j = None else True)
         else \<not> ready j \<and> job_file j = None \<and> error j = None))"

definition sys_ok :: "system \<Rightarrow> bool" where
  "sys_ok s = (\<forall>jid j. registry s jid = Some j \<longrightarrow> job_ok (threads s jid) j)"

text \<open>
  The error field against the state: before a job's thread is done its record is in none
  of the final states and carries no error; afterwards it carries an error exactly when
  it is in state \<open>error\<close>, or in state \<open>finished\<close> and not ready.
\<close>

definition error_ok :: "pc option \<Rightarrow> job \<Rightarrow> bool" where
  "error_ok p j =
     (if p = Some Done
      then (error j \<noteq> None \<longleftrightarrow> state j = Error \<or> state j = Finished \<and> \<not> ready j)
      else state j \<noteq> Error \<and> state j \<noteq> Finished \<and> error j = None)"

text \<open>
  A job whose fetcher is running, the same job after the fetcher raised, and the system
  after a second job was submitted.
\<close>

definition fetching_system :: system where
  "fetching_system =
     \<lparr>registry = set_starting ''j'' (api_download ''j'' 0 Map.empty),
      threads = [''j'' \<mapsto> Fetching]\<rparr>"

definition failed_system :: system where
  "failed_system =
     \<lparr>registry = set_error ''j'' ''boom'' (registry fetching_system),
      threads = (threads fetching_system)(''j'' \<mapsto> Done)\<rparr>"

definition later_system :: system where
  "later_system =
     \<lparr>registry = api_download ''k'' 1 (registry failed_system),
      threads = (threads failed_system)(''k'' \<mapsto> Spawned)\<rparr>"

text \<open>
  Jobs and output directories for the resolver: a job with a post-process hint and an
  identifier, with the file the output template names for that identifier and the hinted
  file on disk; a job whose post-process hint names no file while its observed file name
  does; and an audio-only job whose hint still has the extension of the download.
\<close>

definition hinted_job :: job where
  "hinted_job = (new_job ''j'' 0)\<lparr>video_id := Some ''abc'',
                  pp_filename := Some ''downloads/hint.webm''\<rparr>"

definition bracket_fs :: fs where
  "bracket_fs = [file_entry ''downloads/My Video [abc].mp4'' 10,
                 file_entry ''downloads/hint.webm'' 20]"





section \<open>Properties\<close>

subsection \<open>Rounding\<close>

lemma binade_bounds:
  "0 < x \<Longrightarrow> 2 powi binade x \<le> x \<and> x < 2 powi (binade x + 1)"
proof (induction x rule: binade.induct)
  case (1 x)
  show ?case
  proof (cases "2 \<le> x")
    case True
    with "1.prems" have b: "binade x = binade (x / 2) + 1" by (simp add: binade.simps [of x])
    from "1.IH"(1) True "1.prems"
    have ih: "2 powi binade (x / 2) \<le> x / 2 \<and> x / 2 < 2 powi (binade (x / 2) + 1)" by simp
    have p: "(2::rat) powi (k + 1) = 2 * 2 powi k" for k by (simp add: power_int_add)
    show ?thesis unfolding b p using ih by (simp add: p)
  next
    case False
    show ?thesis
    proof (cases "x < 1")
      case True
      with False "1.prems" have b: "binade x = binade (x * 2) - 1"
        by (simp add: binade.simps [of x])
      from "1.IH"(2) True False "1.prems"
      have ih: "2 powi binade (x * 2) \<le> x * 2 \<and> x * 2 < 2 powi (binade (x * 2) + 1)" by simp
      have p: "(2::rat) powi (k + 1) = 2 * 2 powi k" for k by (simp add: power_int_add)
      have q: "(2::rat) powi (k - 1) = 2 powi k / 2" for k by (simp add: power_int_diff)
      show ?thesis unfolding b using ih by (simp add: p q)
    next
      case nl: False
      with False "1.prems" have "binade x = 0" by (simp add: binade.simps [of x])
      with False nl show ?thesis by simp
    qed
  qed
qed

lemma round_half_even_bounds:
  "\<lfloor>y\<rfloor> \<le> round_half_even y \<and> round_half_even y \<le> \<lfloor>y\<rfloor> + 1"
  by (simp add: round_half_even_def Let_def)

lemma round_half_even_of_int: "round_half_even (of_int n) = n"
  by (simp add: round_half_even_def Let_def)

lemma round_half_even_mono:
  assumes "x \<le> y"
  shows "round_half_even x \<le> round_half_even y"
proof (cases "\<lfloor>x\<rfloor> < \<lfloor>y\<rfloor>")
  case True
  have "round_half_even x \<le> \<lfloor>x\<rfloor> + 1" using round_half_even_bounds by blast
  also have "\<dots> \<le> \<lfloor>y\<rfloor>" using True by simp
  also have "\<dots> \<le> round_half_even y" using round_half_even_bounds by blast
  finally show ?thesis .
next
  case False
  with assms have eq: "\<lfloor>x\<rfloor> = \<lfloor>y\<rfloor>" using floor_mono [of x y] by linarith
  have "x - of_int \<lfloor>y\<rfloor> \<le> y - of_int \<lfloor>y\<rfloor>" using assms by simp
  then show ?thesis unfolding round_half_even_def Let_def eq by auto
qed

lemma ulp_pos: "0 < ulp x"
  by (simp add: ulp_def zero_less_power_int)

lemma two_powi_split: "(2::rat) powi (a + b) = 2 powi a * 2 powi b"
  by (simp add: power_int_add)

lemma powi_binade:
  "(2::rat) powi binade x = 2 ^ 52 * ulp x" "(2::rat) powi (binade x + 1) = 2 ^ 53 * ulp x"
proof -
  have a: "binade x = 52 + (binade x - 52)" "binade x + 1 = 53 + (binade x - 52)" by simp_all
  show "(2::rat) powi binade x = 2 ^ 52 * ulp x"
    unfolding ulp_def by (subst a(1), subst two_powi_split) simp
  show "(2::rat) powi (binade x + 1) = 2 ^ 53 * ulp x"
    unfolding ulp_def by (subst a(2), subst two_powi_split) simp
qed

lemma ulp_scaled:
  assumes "0 < x"
  shows "2 ^ 52 \<le> x / ulp x" "x / ulp x < 2 ^ 53"
proof -
  note b = binade_bounds [OF assms]
  note e = powi_binade(1) [of x] and e1 = powi_binade(2) [of x]
  show "2 ^ 52 \<le> x / ulp x" using b e ulp_pos [of x] by (simp add: pos_le_divide_eq)
  show "x / ulp x < 2 ^ 53" using b e1 ulp_pos [of x] by (simp add: pos_divide_less_eq)
qed

lemma double_of_pos:
  "0 < x \<Longrightarrow> double_of x = of_int (round_half_even (x / ulp x)) * ulp x"
  by (simp add: double_of_def)

lemma double_of_minus: "double_of (- x) = - double_of x"
  by (simp add: double_of_def)

lemma double_of_0: "double_of 0 = 0"
  by (simp add: double_of_def)

lemma double_of_lower:
  assumes "0 < x"
  shows "2 powi binade x \<le> double_of x"
proof -
  have "round_half_even (of_int (2 ^ 52)) \<le> round_half_even (x / ulp x)"
    by (rule round_half_even_mono) (use ulp_scaled(1) [OF assms] in simp)
  then have "(2 ^ 52 :: int) \<le> round_half_even (x / ulp x)"
    by (simp only: round_half_even_of_int)
  then have "(2 ^ 52 :: rat) \<le> of_int (round_half_even (x / ulp x))"
    by (metis of_int_le_iff of_int_numeral of_int_power)
  then have "2 ^ 52 * ulp x \<le> of_int (round_half_even (x / ulp x)) * ulp x"
    using ulp_pos [of x] by (simp add: mult_right_mono)
  moreover note powi_binade(1) [of x]
  ultimately show ?thesis by (simp add: double_of_pos [OF assms])
qed

lemma double_of_upper:
  assumes "0 < x"
  shows "double_of x \<le> 2 powi (binade x + 1)"
proof -
  have "round_half_even (x / ulp x) \<le> round_half_even (of_int (2 ^ 53))"
    by (rule round_half_even_mono) (use ulp_scaled(2) [OF assms] in simp)
  then have "round_half_even (x / ulp x) \<le> (2 ^ 53 :: int)"
    by (simp only: round_half_even_of_int)
  then have "of_int (round_half_even (x / ulp x)) \<le> (2 ^ 53 :: rat)"
    by (metis of_int_le_iff of_int_numeral of_int_power)
  then have "of_int (round_half_even (x / ulp x)) * ulp x \<le> 2 ^ 53 * ulp x"
    using ulp_pos [of x] by (simp add: mult_right_mono)
  moreover note powi_binade(2) [of x]
  ultimately show ?thesis by (simp add: double_of_pos [OF assms])
qed

lemma double_of_nonneg: "0 \<le> x \<Longrightarrow> 0 \<le> double_of x"
proof (cases "x = 0")
  case True
  then show ?thesis by (simp add: double_of_0)
next
  case False
  assume "0 \<le> x"
  with False have p: "0 < x" by simp
  have "0 < (2::rat) powi binade x" by (simp add: zero_less_power_int)
  with double_of_lower [OF p] show ?thesis by linarith
qed

lemma binade_mono:
  assumes "0 < x" "x \<le> y"
  shows "binade x \<le> binade y"
proof (rule ccontr)
  assume "\<not> binade x \<le> binade y"
  then have "binade y + 1 \<le> binade x" by simp
  then have "(2::rat) powi (binade y + 1) \<le> 2 powi binade x"
    by (rule power_int_increasing) simp
  moreover have "2 powi binade x \<le> x" using binade_bounds [OF assms(1)] by simp
  moreover have "y < 2 powi (binade y + 1)" using binade_bounds [of y] assms by simp
  ultimately show False using assms(2) by linarith
qed

lemma double_of_mono_pos:
  assumes "0 < x" "x \<le> y"
  shows "double_of x \<le> double_of y"
proof (cases "binade x = binade y")
  case True
  have y: "0 < y" using assms by simp
  have u: "ulp x = ulp y" by (simp add: ulp_def True)
  have "x / ulp y \<le> y / ulp y" using assms(2) ulp_pos [of y] by (simp add: divide_right_mono)
  then have "round_half_even (x / ulp y) \<le> round_half_even (y / ulp y)"
    by (rule round_half_even_mono)
  then have "(of_int (round_half_even (x / ulp y)) :: rat) \<le> of_int (round_half_even (y / ulp y))"
    by simp
  then show ?thesis unfolding double_of_pos [OF assms(1)] double_of_pos [OF y] u
    using ulp_pos [of y] by (simp add: mult_right_mono)
next
  case False
  have y: "0 < y" using assms by simp
  from False binade_mono [OF assms] have "binade x + 1 \<le> binade y" by simp
  then have "(2::rat) powi (binade x + 1) \<le> 2 powi binade y"
    by (rule power_int_increasing) simp
  with double_of_upper [OF assms(1)] double_of_lower [OF y] show ?thesis by linarith
qed

lemma double_of_mono:
  assumes "x \<le> y"
  shows "double_of x \<le> double_of y"
proof -
  consider "0 < x" | "x \<le> 0" "0 \<le> y" | "y < 0" by linarith
  then show ?thesis
  proof cases
    case 1
    then show ?thesis using assms by (rule double_of_mono_pos)
  next
    case 2
    have "0 \<le> double_of (- x)" using 2(1) by (intro double_of_nonneg) simp
    then have "double_of x \<le> 0" by (simp add: double_of_minus)
    with double_of_nonneg [OF 2(2)] show ?thesis by linarith
  next
    case 3
    have "double_of (- y) \<le> double_of (- x)"
      using 3 assms by (intro double_of_mono_pos) simp_all
    then show ?thesis by (simp add: double_of_minus)
  qed
qed

lemma double_of_fixed: "double_of 1 = 1" "double_of 100 = 100"
  by code_simp+

lemma py_round2_mono: "x \<le> y \<Longrightarrow> py_round2 x \<le> py_round2 y"
proof -
  assume "x \<le> y"
  then have "x * 100 \<le> y * 100" by simp
  then have "round_half_even (x * 100) \<le> round_half_even (y * 100)"
    by (rule round_half_even_mono)
  then have "(of_int (round_half_even (x * 100)) :: rat) / 100
      \<le> of_int (round_half_even (y * 100)) / 100"
    by (simp add: divide_right_mono)
  then show ?thesis unfolding py_round2_def by (rule double_of_mono)
qed

lemma py_round2_fixed: "py_round2 0 = 0" "py_round2 100 = 100"
proof -
  show "py_round2 0 = 0"
    using round_half_even_of_int [of 0] by (simp add: py_round2_def double_of_0)
  have "py_round2 100 = double_of (of_int (round_half_even (of_int 10000)) / 100)"
    by (simp add: py_round2_def)
  also have "\<dots> = double_of 100" by (simp only: round_half_even_of_int) simp
  finally show "py_round2 100 = 100" by (simp add: double_of_fixed)
qed

text \<open>
  The percentage of line 251 as a function of the exact quotient: it does not decrease
  when the quotient does not, and it lies in \<open>[0, 100]\<close> when the quotient lies in
  \<open>[0, 1]\<close>.
\<close>

lemma percent_mono:
  assumes "q \<le> q'"
  shows "py_round2 (double_of (double_of q * 100)) \<le> py_round2 (double_of (double_of q' * 100))"
proof -
  have "double_of q * 100 \<le> double_of q' * 100"
    using double_of_mono [OF assms] by simp
  then show ?thesis by (intro py_round2_mono double_of_mono)
qed

lemma percent_range:
  assumes "0 \<le> q" "q \<le> 1"
  shows "0 \<le> py_round2 (double_of (double_of q * 100))
    \<and> py_round2 (double_of (double_of q * 100)) \<le> 100"
proof -
  have "py_round2 (double_of (double_of 0 * 100)) \<le> py_round2 (double_of (double_of q * 100))"
    using assms(1) by (rule percent_mono)
  moreover have "py_round2 (double_of (double_of q * 100)) \<le> py_round2 (double_of (double_of 1 * 100))"
    using assms(2) by (rule percent_mono)
  ultimately show ?thesis by (simp add: double_of_0 double_of_fixed py_round2_fixed)
qed

text \<open>The percentages of the sample events.\<close>

lemma percent_samples:
  "py_round2 (double_of (double_of (1 / 2) * 100)) = 50"
  "py_round2 (double_of (double_of (1 / 4) * 100)) = 25"
  "py_round2 (double_of (double_of (3 / 4) * 100)) = 75"
  "py_round2 (double_of (double_of 2 * 100)) = 200"
  by code_simp+

text \<open>
  The rounding is that of floats: 23 of 160 bytes are 14.375 percent exactly, which
  rounds to 14.38; the float product is just below that, and the value stored is the
  float nearest to 14.37.
\<close>

lemma percent_float_sample:
  "percent_of (progress_event ''downloading'' None 23 160)
     = Inr (Some (8089590830664253 / 562949953421312))
   \<and> double_of (1437 / 100) = 8089590830664253 / 562949953421312
   \<and> double_of (double_of (23 / 160) * 100) < 14375 / 1000
   \<and> of_int (round_half_even (23 / 160 * 100 * 100)) / 100 = (1438 / 100 :: rat)"
  by code_simp


subsection \<open>The progress hook\<close>

lemmas ev_simps = progress_event_def info_of_def empty_info_def total_of_def downloaded_of_def
  percent_of_def num_or_def hook_job_def Let_def new_job_def

lemmas run_simps = run_download_trace_def states_of_def api_download_def set_starting_def
  set_error_def hook_def pp_hook_def store_merge_ext_def



text \<open>
  C3, as the code has it: on a \<open>downloading\<close> event the hook computes the progress
  from that event alone and stores it, with the state \<open>downloading\<close>. The stored
  value is unset when the total is falsy, and \<open>round(downloaded / total * 100, 2)\<close>
  in float arithmetic otherwise; when the total is truthy and \<open>downloaded_bytes\<close> is
  present as \<open>None\<close> the hook raises and stores nothing. The value lies in
  \<open>[0, 100]\<close> when \<open>0 \<le> downloaded \<le> total\<close> with a positive total, and over two
  successive events with positive totals it does not decrease when the ratio
  \<open>downloaded / total\<close> does not decrease. The hook neither clamps the value nor
  compares it with the previous one.
\<close>

theorem hook_progress_amended:
  assumes "js jid = Some job"
    and "d_status d = Some ''downloading''" "d_status d' = Some ''downloading''"
  shows "(total_of d = 0 \<longrightarrow>
            (\<exists>j. hook jid d js = Inr (js(jid \<mapsto> j)) \<and> state j = Downloading
               \<and> progress j = None))
    \<and> (total_of d \<noteq> 0 \<and> downloaded_of d = None \<longrightarrow> (\<exists>e. hook jid d js = Inl e))
    \<and> (\<forall>n. total_of d \<noteq> 0 \<and> downloaded_of d = Some n \<longrightarrow>
          (\<exists>j. hook jid d js = Inr (js(jid \<mapsto> j)) \<and> state j = Downloading
             \<and> progress j = Some (py_round2 (double_of (double_of (n / total_of d) * 100)))
             \<and> (0 < total_of d \<and> 0 \<le> n \<and> n \<le> total_of d \<longrightarrow>
                  0 \<le> the (progress j) \<and> the (progress j) \<le> 100)))
    \<and> (\<forall>n n'. 0 < total_of d \<and> 0 < total_of d' \<and> downloaded_of d = Some n
          \<and> downloaded_of d' = Some n' \<and> n / total_of d \<le> n' / total_of d' \<longrightarrow>
          (\<exists>j j'. hook jid d js = Inr (js(jid \<mapsto> j))
             \<and> hook jid d' (js(jid \<mapsto> j)) = Inr (js(jid \<mapsto> j'))
             \<and> state j = Downloading \<and> state j' = Downloading
             \<and> the (progress j) \<le> the (progress j')))"
proof -
  let ?pc = "\<lambda>q. py_round2 (double_of (double_of q * 100))"
  have st: "state (hook_job d p j) = Downloading" "progress (hook_job d p j) = p"
    "state (hook_job d' p j) = Downloading" "progress (hook_job d' p j) = p" for p j
    using assms(2,3) by (simp_all add: hook_job_def Let_def)
  have 1: "\<exists>j. hook jid d js = Inr (js(jid \<mapsto> j)) \<and> state j = Downloading \<and> progress j = None"
    if "total_of d = 0"
  proof -
    have "hook jid d js = Inr (js(jid \<mapsto> hook_job d None job))"
      using assms(1) that by (simp add: hook_def percent_of_def)
    with st show ?thesis by blast
  qed
  have 2: "\<exists>e. hook jid d js = Inl e" if "total_of d \<noteq> 0" "downloaded_of d = None"
    using assms(1) that by (simp add: hook_def percent_of_def)
  have h: "hook jid d js = Inr (js(jid \<mapsto> hook_job d (Some (?pc (n / total_of d))) job))"
    if "total_of d \<noteq> 0" "downloaded_of d = Some n" for n
    using assms(1) that by (simp add: hook_def percent_of_def)
  have h': "hook jid d' (js(jid \<mapsto> j))
      = Inr (js(jid \<mapsto> hook_job d' (Some (?pc (n / total_of d'))) j))"
    if "total_of d' \<noteq> 0" "downloaded_of d' = Some n" for n j
    using that by (simp add: hook_def percent_of_def)
  have 3: "\<exists>j. hook jid d js = Inr (js(jid \<mapsto> j)) \<and> state j = Downloading
             \<and> progress j = Some (?pc (n / total_of d))
             \<and> (0 < total_of d \<and> 0 \<le> n \<and> n \<le> total_of d \<longrightarrow>
                  0 \<le> the (progress j) \<and> the (progress j) \<le> 100)"
    if t: "total_of d \<noteq> 0" "downloaded_of d = Some n" for n
  proof -
    have "0 \<le> ?pc (n / total_of d) \<and> ?pc (n / total_of d) \<le> 100"
      if "0 < total_of d" "0 \<le> n" "n \<le> total_of d"
    proof -
      have "0 \<le> n / total_of d" "n / total_of d \<le> 1" using that by simp_all
      then show ?thesis by (rule percent_range)
    qed
    with h [OF t] st show ?thesis by auto
  qed
  have 4: "\<exists>j j'. hook jid d js = Inr (js(jid \<mapsto> j))
             \<and> hook jid d' (js(jid \<mapsto> j)) = Inr (js(jid \<mapsto> j'))
             \<and> state j = Downloading \<and> state j' = Downloading
             \<and> the (progress j) \<le> the (progress j')"
    if t: "0 < total_of d" "0 < total_of d'" "downloaded_of d = Some n"
      "downloaded_of d' = Some n'" "n / total_of d \<le> n' / total_of d'" for n n'
  proof -
    let ?j = "hook_job d (Some (?pc (n / total_of d))) job"
    let ?j' = "hook_job d' (Some (?pc (n' / total_of d'))) ?j"
    have a: "hook jid d js = Inr (js(jid \<mapsto> ?j))" using h [of n] t by simp
    have b: "hook jid d' (js(jid \<mapsto> ?j)) = Inr (js(jid \<mapsto> ?j'))"
      using h' [of n' ?j] t by simp
    have c: "the (progress ?j) \<le> the (progress ?j')"
      using percent_mono [OF t(5)] by (simp add: st)
    from a b c st show ?thesis by blast
  qed
  from 1 2 3 4 show ?thesis by blast
qed

theorem hook_progress_amended_witness:
  "api_download ''j'' 0 Map.empty ''j'' = Some (new_job ''j'' 0)
   \<and> d_status (progress_event ''downloading'' None 50 100) = Some ''downloading''
   \<and> d_status (progress_event ''downloading'' None 75 100) = Some ''downloading''
   \<and> total_of (progress_event ''downloading'' None 50 100) = 100
   \<and> downloaded_of (progress_event ''downloading'' None 50 100) = Some 50
   \<and> total_of (progress_event ''downloading'' None 75 100) = 100
   \<and> downloaded_of (progress_event ''downloading'' None 75 100) = Some 75
   \<and> (\<exists>j. hook ''j'' (progress_event ''downloading'' None 50 100)
              (api_download ''j'' 0 Map.empty)
            = Inr ((api_download ''j'' 0 Map.empty)(''j'' \<mapsto> j))
          \<and> state j = Downloading \<and> progress j = Some 50)
   \<and> (\<exists>j j'. hook ''j'' (progress_event ''downloading'' None 50 100)
              (api_download ''j'' 0 Map.empty)
            = Inr ((api_download ''j'' 0 Map.empty)(''j'' \<mapsto> j))
          \<and> hook ''j'' (progress_event ''downloading'' None 75 100)
              ((api_download ''j'' 0 Map.empty)(''j'' \<mapsto> j))
            = Inr ((api_download ''j'' 0 Map.empty)(''j'' \<mapsto> j'))
          \<and> state j = Downloading \<and> state j' = Downloading
          \<and> the (progress j) \<le> the (progress j'))"
proof -
  let ?a = "progress_event ''downloading'' None 50 100"
  let ?b = "progress_event ''downloading'' None 75 100"
  let ?js = "api_download ''j'' 0 Map.empty"
  have r: "?js ''j'' = Some (new_job ''j'' 0)" by (simp add: api_download_def)
  have s: "d_status ?a = Some ''downloading''" "d_status ?b = Some ''downloading''"
    by (simp_all add: progress_event_def)
  have t: "total_of ?a = 100" "downloaded_of ?a = Some 50" "total_of ?b = 100"
    "downloaded_of ?b = Some 75"
    by (simp_all add: progress_event_def total_of_def downloaded_of_def num_or_def)
  have q: "py_round2 (double_of (double_of (50 / total_of ?a) * 100)) = 50"
    unfolding t using percent_samples(1) by simp
  note inst = hook_progress_amended [where js="?js" and jid="''j''" and job="new_job ''j'' 0"
      and d="?a" and d'="?b", OF r s(1) s(2)]
  from inst t(1,2) have "\<exists>j. hook ''j'' ?a ?js = Inr (?js(''j'' \<mapsto> j)) \<and> state j = Downloading
      \<and> progress j = Some (py_round2 (double_of (double_of (50 / total_of ?a) * 100)))"
    by auto
  then have 3: "\<exists>j. hook ''j'' ?a ?js = Inr (?js(''j'' \<mapsto> j)) \<and> state j = Downloading
      \<and> progress j = Some 50"
    unfolding q .
  have "(50::rat) / total_of ?a \<le> 75 / total_of ?b" unfolding t by simp
  with inst t have 4: "\<exists>j j'. hook ''j'' ?a ?js = Inr (?js(''j'' \<mapsto> j))
          \<and> hook ''j'' ?b (?js(''j'' \<mapsto> j)) = Inr (?js(''j'' \<mapsto> j'))
          \<and> state j = Downloading \<and> state j' = Downloading
          \<and> the (progress j) \<le> the (progress j')"
    by simp
  from r s t 3 4 show ?thesis by blast
qed


text \<open>
  C3 as stated fails: with a total of 100, a record in state \<open>downloading\<close> goes from
  progress 50 to progress 25 when the second event reports fewer bytes (a second stream
  starting), and an event that reports 200 bytes gives progress 200.
\<close>

theorem hook_progress_counterexample:
  "map_option (\<lambda>j. (state j, progress j))
     (apply_callback ''j'' (Progress (progress_event ''downloading'' None 50 100))
        (api_download ''j'' 0 Map.empty) ''j'')
     = Some (Downloading, Some 50)
   \<and> map_option (\<lambda>j. (state j, progress j))
     (apply_callback ''j'' (Progress (progress_event ''downloading'' None 25 100))
        (apply_callback ''j'' (Progress (progress_event ''downloading'' None 50 100))
           (api_download ''j'' 0 Map.empty)) ''j'')
     = Some (Downloading, Some 25)
   \<and> map_option (\<lambda>j. (state j, progress j))
     (apply_callback ''j'' (Progress (progress_event ''downloading'' None 200 100))
        (api_download ''j'' 0 Map.empty) ''j'')
     = Some (Downloading, Some 200)"
  by (simp add: run_simps ev_simps percent_samples)

subsection \<open>One run of the job runner\<close>

lemma hook_job_fields:
  "error (hook_job d p job) = error job" "ready (hook_job d p job) = ready job"
  "job_file (hook_job d p job) = job_file job"
  "state (hook_job d p job) = (if d_status d = Some ''downloading'' then Downloading
     else if d_status d = Some ''finished'' then Processing else state job)"
  by (simp_all add: hook_job_def Let_def)

lemma apply_callback_at:
  assumes "js jid = Some job"
  shows "\<exists>job'. apply_callback jid c js jid = Some job' \<and> error job' = error job
     \<and> ready job' = ready job \<and> job_file job' = job_file job
     \<and> (state job' = state job \<or> state job' = Downloading \<or> state job' = Processing)"
proof (cases c)
  case (Progress d)
  then show ?thesis using assms
    by (cases "percent_of d") (simp_all add: hook_def hook_job_fields)
next
  case (Postprocess d)
  then show ?thesis using assms by (simp add: pp_hook_def Let_def)
qed

lemma apply_callback_other: "k \<noteq> jid \<Longrightarrow> apply_callback jid c js k = js k"
  by (cases c) (simp_all add: hook_def pp_hook_def Let_def split: option.splits sum.splits)

lemma after_callbacks_inv:
  assumes "js jid = Some job" "mid_state (state job)"
  shows "list_all (\<lambda>s. \<exists>j. s jid = Some j \<and> mid_state (state j) \<and> error j = error job
            \<and> ready j = ready job \<and> job_file j = job_file job)
           (js # after_callbacks jid cbs js)
    \<and> sorted (map phase (state job # map (\<lambda>s. state (the (s jid))) (after_callbacks jid cbs js)))"
  using assms
proof (induction cbs arbitrary: js job)
  case Nil
  then show ?case by simp
next
  case (Cons c cbs)
  from apply_callback_at [of js jid job c, OF Cons.prems(1)] obtain job' where
    j': "apply_callback jid c js jid = Some job'" "error job' = error job"
      "ready job' = ready job" "job_file job' = job_file job"
      "state job' = state job \<or> state job' = Downloading \<or> state job' = Processing"
    by blast
  have m: "mid_state (state job')" using j'(5) Cons.prems(2) by (auto simp: mid_state_def)
  have le: "phase (state job) \<le> phase (state job')"
    using j'(5) Cons.prems(2) by (auto simp: mid_state_def)
  from Cons.IH [of "apply_callback jid c js" job', OF j'(1) m] have ih:
    "list_all (\<lambda>s. \<exists>j. s jid = Some j \<and> mid_state (state j) \<and> error j = error job
            \<and> ready j = ready job \<and> job_file j = job_file job)
           (apply_callback jid c js # after_callbacks jid cbs (apply_callback jid c js))"
    "sorted (map phase (state job' # map (\<lambda>s. state (the (s jid)))
        (after_callbacks jid cbs (apply_callback jid c js))))"
    by (simp_all add: j')
  show ?case using ih le Cons.prems j'(1) by auto
qed



lemma mid_state_phase: "mid_state s \<Longrightarrow> 1 \<le> phase s \<and> phase s \<le> 2"
  by (auto simp: mid_state_def)




lemma set_starting_at:
  "js jid = Some job \<Longrightarrow> set_starting jid js jid = Some (job\<lparr>state := Starting, progress := Some 0\<rparr>)"
  by (simp add: set_starting_def)

lemma set_error_at:
  "js jid = Some job \<Longrightarrow> set_error jid m js jid = Some (job\<lparr>state := Error, error := Some m\<rparr>)"
  by (simp add: set_error_def)

lemma store_merge_ext_at:
  "js jid = Some job \<Longrightarrow>
   \<exists>j. store_merge_ext jid pl js jid = Some j \<and> state j = state job \<and> error j = error job
     \<and> ready j = ready job \<and> job_file j = job_file job"
  by (simp add: store_merge_ext_def)

lemma finish_at:
  assumes "js jid = Some job"
  shows "\<exists>j. finish fs jid pl info js jid = Some j \<and>
     (state j = Error \<and> error j \<noteq> None \<and> ready j = ready job \<and> job_file j = job_file job
      \<or> state j = Finished \<and> ready j \<and> job_file j \<noteq> None \<and> error j = None
      \<or> state j = Finished \<and> \<not> ready j \<and> job_file j = None
          \<and> error j = Some ''File not found after download'')"
proof (cases "resolve_final_file fs info job (selection_of pl) (audio_fmt_of pl) (merge_of pl)")
  case (Inl e)
  then show ?thesis using assms by (simp add: finish_def set_error_def)
next
  case (Inr fp)
  then show ?thesis using assms by (cases fp) (simp_all add: finish_def)
qed

text \<open>The last registry of the callbacks phase.\<close>

lemma run_mid:
  assumes "js jid = Some job"
  shows "list_all (\<lambda>s. \<exists>j. s jid = Some j \<and> mid_state (state j) \<and> error j = error job
            \<and> ready j = ready job \<and> job_file j = job_file job)
           (set_starting jid js # after_callbacks jid cbs (set_starting jid js))
    \<and> sorted (map phase (states_of jid
           (set_starting jid js # after_callbacks jid cbs (set_starting jid js))))
    \<and> state (the (set_starting jid js jid)) = Starting"
proof -
  have 1: "set_starting jid js jid = Some (job\<lparr>state := Starting, progress := Some 0\<rparr>)"
    using assms(1) by (rule set_starting_at)
  have 2: "mid_state (state (job\<lparr>state := Starting, progress := Some 0\<rparr>))"
    by (simp add: mid_state_def)
  from after_callbacks_inv [of "set_starting jid js" jid _ cbs, OF 1 2]
  show ?thesis unfolding states_of_def by (simp add: 1)
qed





text \<open>
  Along one run the error field stays unset through every update but the last; the last
  update sets it when the record enters \<open>error\<close>, and also when it enters
  \<open>finished\<close> with no file found (\<open>ready\<close> false), then with the fixed text.
\<close>

lemma run_error_trace:
  assumes "js jid = Some job" "error job = None"
  shows "list_all (\<lambda>s. \<exists>j. s jid = Some j \<and> error j = None)
           (butlast (run_download_trace fs jid pl cbs res js))
    \<and> (\<exists>j. last (run_download_trace fs jid pl cbs res js) jid = Some j
          \<and> (error j \<noteq> None \<longleftrightarrow> state j = Error \<or> state j = Finished \<and> \<not> ready j)
          \<and> (state j = Finished \<and> \<not> ready j \<longrightarrow>
               error j = Some ''File not found after download''))"
proof -
  define js1 where "js1 = set_starting jid js"
  define mid where "mid = after_callbacks jid cbs js1"
  define js2 where "js2 = last (js1 # mid)"
  have m: "list_all (\<lambda>s. \<exists>j. s jid = Some j \<and> mid_state (state j) \<and> error j = error job
            \<and> ready j = ready job \<and> job_file j = job_file job) (js1 # mid)"
    using run_mid [where js=js and jid=jid and job=job and cbs=cbs, OF assms(1)]
    unfolding js1_def mid_def by blast
  then have none: "list_all (\<lambda>s. \<exists>j. s jid = Some j \<and> error j = None) (js1 # mid)"
    unfolding list_all_iff using assms(2) by auto
  have "js2 \<in> set (js1 # mid)" unfolding js2_def by (rule last_in_set) simp
  with m obtain j2 where j2: "js2 jid = Some j2" "error j2 = None"
    unfolding list_all_iff using assms(2) by auto
  show ?thesis
  proof (cases res)
    case (Raised msg)
    have tr: "run_download_trace fs jid pl cbs res js = (js1 # mid) @ [set_error jid msg js2]"
      by (simp add: run_download_trace_def Let_def Raised js1_def mid_def js2_def)
    have e: "set_error jid msg js2 jid = Some (j2\<lparr>state := Error, error := Some msg\<rparr>)"
      using j2(1) by (rule set_error_at)
    show ?thesis unfolding tr butlast_snoc last_snoc using none e by simp
  next
    case (Returned info)
    define js3 where "js3 = store_merge_ext jid pl js2"
    have tr: "run_download_trace fs jid pl cbs res js
        = ((js1 # mid) @ [js3]) @ [finish fs jid pl info js3]"
      by (simp add: run_download_trace_def Let_def Returned js1_def mid_def js2_def js3_def)
    from store_merge_ext_at [where js=js2 and jid=jid and job=j2 and pl=pl, OF j2(1)] obtain j3
      where j3: "js3 jid = Some j3" "error j3 = error j2" unfolding js3_def by blast
    from finish_at [where js=js3 and jid=jid and job=j3 and fs=fs and pl=pl and info=info,
        OF j3(1)]
    have f: "\<exists>j. finish fs jid pl info js3 jid = Some j
          \<and> (error j \<noteq> None \<longleftrightarrow> state j = Error \<or> state j = Finished \<and> \<not> ready j)
          \<and> (state j = Finished \<and> \<not> ready j \<longrightarrow>
               error j = Some ''File not found after download'')"
      by auto
    have "list_all (\<lambda>s. \<exists>j. s jid = Some j \<and> error j = None) ((js1 # mid) @ [js3])"
      using none j3 j2(2) by simp
    then show ?thesis unfolding tr butlast_snoc last_snoc using f by blast
  qed
qed

subsection \<open>Interleaved runs\<close>

lemma api_file_snd: "snd (api_file fs method jid js) = js"
  by (simp add: api_file_def Let_def split: option.splits)

lemma set_starting_other: "k \<noteq> jid \<Longrightarrow> set_starting jid js k = js k"
  by (simp add: set_starting_def split: option.splits)
lemma set_error_other: "k \<noteq> jid \<Longrightarrow> set_error jid m js k = js k"
  by (simp add: set_error_def split: option.splits)
lemma store_merge_ext_other: "k \<noteq> jid \<Longrightarrow> store_merge_ext jid pl js k = js k"
  by (simp add: store_merge_ext_def split: option.splits)
lemma finish_other: "k \<noteq> jid \<Longrightarrow> finish fs jid pl info js k = js k"
  by (simp add: finish_def set_error_def split: option.splits sum.splits)

lemma set_starting_none: "js jid = None \<Longrightarrow> set_starting jid js = js"
  by (simp add: set_starting_def)
lemma set_error_none: "js jid = None \<Longrightarrow> set_error jid m js = js"
  by (simp add: set_error_def)
lemma store_merge_ext_none: "js jid = None \<Longrightarrow> store_merge_ext jid pl js = js"
  by (simp add: store_merge_ext_def)
lemma finish_none: "js jid = None \<Longrightarrow> finish fs jid pl info js = js"
  by (simp add: finish_def)
lemma apply_callback_none: "js jid = None \<Longrightarrow> apply_callback jid c js = js"
  by (cases c) (simp_all add: hook_def pp_hook_def Let_def)

lemma sys_okD: "sys_ok s \<Longrightarrow> registry s jid = Some j \<Longrightarrow> job_ok (threads s jid) j"
  by (simp add: sys_ok_def)

lemma reachable_sys_ok: "reachable s \<Longrightarrow> sys_ok s"
proof (induction rule: reachable.induct)
  case init
  show ?case by (simp add: sys_ok_def)
next
  case (submit s jid now)
  then show ?case
    by (auto simp: sys_ok_def api_download_def new_job_def job_ok_def)
next
  case (start s jid)
  show ?case unfolding sys_ok_def
  proof (intro allI impI)
    fix k j assume r: "registry \<lparr>registry = set_starting jid (registry s),
                threads = (threads s)(jid \<mapsto> Fetching)\<rparr> k = Some j"
    show "job_ok (threads \<lparr>registry = set_starting jid (registry s),
                threads = (threads s)(jid \<mapsto> Fetching)\<rparr> k) j"
    proof (cases "k = jid")
      case False
      with r start.IH show ?thesis by (simp add: sys_ok_def set_starting_other)
    next
      case True
      with r obtain j0 where j0: "registry s jid = Some j0"
        by (cases "registry s jid") (simp_all add: set_starting_none)
      from sys_okD [OF start.IH j0] start.hyps(2) have "job_ok (Some Spawned) j0" by simp
      with r True j0 show ?thesis by (auto simp: set_starting_def job_ok_def)
    qed
  qed
next
  case (callback s jid c)
  show ?case unfolding sys_ok_def
  proof (intro allI impI)
    fix k j assume r: "registry (s\<lparr>registry := apply_callback jid c (registry s)\<rparr>) k = Some j"
    show "job_ok (threads (s\<lparr>registry := apply_callback jid c (registry s)\<rparr>) k) j"
    proof (cases "k = jid")
      case False
      with r callback.IH show ?thesis by (simp add: sys_ok_def apply_callback_other)
    next
      case True
      with r obtain j0 where j0: "registry s jid = Some j0"
        by (cases "registry s jid") (simp_all add: apply_callback_none)
      from sys_okD [OF callback.IH j0] callback.hyps(2) have ok: "job_ok (Some Fetching) j0"
        by simp
      from apply_callback_at [where js="registry s" and jid=jid and job=j0 and c=c, OF j0]
      obtain j' where "apply_callback jid c (registry s) jid = Some j'" "error j' = error j0"
        "ready j' = ready j0" "job_file j' = job_file j0" by blast
      with r True ok callback.hyps(2) show ?thesis by (auto simp: job_ok_def)
    qed
  qed
next
  case (raised s jid msg)
  show ?case unfolding sys_ok_def
  proof (intro allI impI)
    fix k j assume r: "registry \<lparr>registry = set_error jid msg (registry s),
                threads = (threads s)(jid \<mapsto> Done)\<rparr> k = Some j"
    show "job_ok (threads \<lparr>registry = set_error jid msg (registry s),
                threads = (threads s)(jid \<mapsto> Done)\<rparr> k) j"
    proof (cases "k = jid")
      case False
      with r raised.IH show ?thesis by (simp add: sys_ok_def set_error_other)
    next
      case True
      with r obtain j0 where j0: "registry s jid = Some j0"
        by (cases "registry s jid") (simp_all add: set_error_none)
      from sys_okD [OF raised.IH j0] raised.hyps(2) have "job_ok (Some Fetching) j0" by simp
      with r True j0 show ?thesis by (auto simp: set_error_def job_ok_def)
    qed
  qed
next
  case (returned s jid pl info)
  show ?case unfolding sys_ok_def
  proof (intro allI impI)
    fix k j assume r: "registry \<lparr>registry = store_merge_ext jid pl (registry s),
                threads = (threads s)(jid \<mapsto> Resolving info)\<rparr> k = Some j"
    show "job_ok (threads \<lparr>registry = store_merge_ext jid pl (registry s),
                threads = (threads s)(jid \<mapsto> Resolving info)\<rparr> k) j"
    proof (cases "k = jid")
      case False
      with r returned.IH show ?thesis by (simp add: sys_ok_def store_merge_ext_other)
    next
      case True
      with r obtain j0 where j0: "registry s jid = Some j0"
        by (cases "registry s jid") (simp_all add: store_merge_ext_none)
      from sys_okD [OF returned.IH j0] returned.hyps(2) have "job_ok (Some Fetching) j0" by simp
      with r True j0 show ?thesis by (auto simp: store_merge_ext_def job_ok_def)
    qed
  qed
next
  case (finished s jid info fs pl)
  show ?case unfolding sys_ok_def
  proof (intro allI impI)
    fix k j assume r: "registry \<lparr>registry = finish fs jid pl info (registry s),
                threads = (threads s)(jid \<mapsto> Done)\<rparr> k = Some j"
    show "job_ok (threads \<lparr>registry = finish fs jid pl info (registry s),
                threads = (threads s)(jid \<mapsto> Done)\<rparr> k) j"
    proof (cases "k = jid")
      case False
      with r finished.IH show ?thesis by (simp add: sys_ok_def finish_other)
    next
      case True
      with r obtain j0 where j0: "registry s jid = Some j0"
        by (cases "registry s jid") (simp_all add: finish_none)
      from sys_okD [OF finished.IH j0] finished.hyps(2)
      have ok: "job_ok (Some (Resolving info)) j0" by simp
      from finish_at [where js="registry s" and jid=jid and job=j0 and fs=fs and pl=pl
          and info=info, OF j0]
      obtain j' where "finish fs jid pl info (registry s) jid = Some j'"
        "state j' = Error \<and> error j' \<noteq> None \<and> ready j' = ready j0 \<and> job_file j' = job_file j0
         \<or> state j' = Finished \<and> ready j' \<and> job_file j' \<noteq> None \<and> error j' = None
         \<or> state j' = Finished \<and> \<not> ready j' \<and> job_file j' = None
            \<and> error j' = Some ''File not found after download''"
        by blast
      with r True ok show ?thesis by (auto simp: job_ok_def)
    qed
  qed
next
  case (retrieve s fs meth jid)
  then show ?case by (simp add: api_file_snd sys_ok_def)
qed

subsection \<open>The error field\<close>

lemma reachable_step: "step s s' \<Longrightarrow> reachable s \<Longrightarrow> reachable s'"
  by (induction rule: step.induct) (auto intro: reachable.intros)

lemma reachable_steps: "step\<^sup>*\<^sup>* s s' \<Longrightarrow> reachable s \<Longrightarrow> reachable s'"
  by (induction rule: rtranclp_induct) (auto intro: reachable_step)

text \<open>What one step does to the record of a job and to its thread.\<close>

lemma step_at:
  assumes "step s s'" "registry s jid = Some j"
  shows "registry s' jid = Some j \<and> threads s' jid = threads s jid
    \<or> threads s jid = Some Spawned \<and> threads s' jid = Some Fetching
        \<and> registry s' jid = Some (j\<lparr>state := Starting, progress := Some 0\<rparr>)
    \<or> threads s jid = Some Fetching \<and> threads s' jid = Some Fetching
        \<and> (\<exists>j'. registry s' jid = Some j' \<and> error j' = error j \<and> ready j' = ready j
              \<and> (state j' = state j \<or> state j' = Downloading \<or> state j' = Processing))
    \<or> threads s jid = Some Fetching \<and> threads s' jid = Some Done
        \<and> (\<exists>m. registry s' jid = Some (j\<lparr>state := Error, error := Some m\<rparr>))
    \<or> threads s jid = Some Fetching \<and> (\<exists>info. threads s' jid = Some (Resolving info))
        \<and> (\<exists>j'. registry s' jid = Some j' \<and> state j' = state j \<and> error j' = error j
              \<and> ready j' = ready j)
    \<or> (\<exists>info. threads s jid = Some (Resolving info)) \<and> threads s' jid = Some Done
        \<and> (\<exists>j'. registry s' jid = Some j'
              \<and> (state j' = Error \<and> error j' \<noteq> None \<and> ready j' = ready j
                  \<or> state j' = Finished \<and> ready j' \<and> error j' = None
                  \<or> state j' = Finished \<and> \<not> ready j'
                      \<and> error j' = Some ''File not found after download''))"
  using assms
proof (induction rule: step.induct)
  case (submit s k now)
  then have "k \<noteq> jid" by auto
  then show ?case using submit by (simp add: api_download_def)
next
  case (start s k)
  show ?case
  proof (cases "k = jid")
    case True
    with start set_starting_at [of "registry s" jid j] show ?thesis by simp
  next
    case False
    with start show ?thesis by (simp add: set_starting_other)
  qed
next
  case (callback s k c)
  show ?case
  proof (cases "k = jid")
    case True
    with callback apply_callback_at [of "registry s" jid j c] show ?thesis by auto
  next
    case False
    with callback show ?thesis by (simp add: apply_callback_other)
  qed
next
  case (raised s k msg)
  show ?case
  proof (cases "k = jid")
    case True
    with raised set_error_at [of "registry s" jid j msg] show ?thesis by auto
  next
    case False
    with raised show ?thesis by (simp add: set_error_other)
  qed
next
  case (returned s k pl info)
  show ?case
  proof (cases "k = jid")
    case True
    with returned store_merge_ext_at [of "registry s" jid j pl] show ?thesis by auto
  next
    case False
    with returned show ?thesis by (simp add: store_merge_ext_other)
  qed
next
  case (finished s k info fs pl)
  show ?case
  proof (cases "k = jid")
    case True
    from finish_at [where js="registry s" and jid=jid and job=j and fs=fs and pl=pl
        and info=info, OF finished(2)]
    obtain j' where "finish fs jid pl info (registry s) jid = Some j'"
      "state j' = Error \<and> error j' \<noteq> None \<and> ready j' = ready j
       \<or> state j' = Finished \<and> ready j' \<and> error j' = None
       \<or> state j' = Finished \<and> \<not> ready j' \<and> error j' = Some ''File not found after download''"
      by blast
    with True finished(1) show ?thesis by auto
  next
    case False
    with finished show ?thesis by (simp add: finish_other)
  qed
next
  case (retrieve s fs meth k)
  then show ?case by (simp add: api_file_snd)
qed

lemma step_new:
  assumes "step s s'" "registry s jid = None" "registry s' jid = Some j"
  shows "threads s' jid = Some Spawned \<and> (\<exists>now. j = new_job jid now)"
  using assms
proof (induction rule: step.induct)
  case (submit s k now)
  then show ?case by (cases "k = jid") (auto simp: api_download_def)
next
  case (start s k)
  then show ?case by (cases "k = jid") (simp_all add: set_starting_none set_starting_other)
next
  case (callback s k c)
  then show ?case by (cases "k = jid") (simp_all add: apply_callback_none apply_callback_other)
next
  case (raised s k msg)
  then show ?case by (cases "k = jid") (simp_all add: set_error_none set_error_other)
next
  case (returned s k pl info)
  then show ?case by (cases "k = jid") (simp_all add: store_merge_ext_none store_merge_ext_other)
next
  case (finished s k info fs pl)
  then show ?case by (cases "k = jid") (simp_all add: finish_none finish_other)
next
  case (retrieve s fs meth k)
  then show ?case by (simp add: api_file_snd)
qed

lemma reachable_from_init:
  "reachable s \<Longrightarrow> step\<^sup>*\<^sup>* \<lparr>registry = Map.empty, threads = Map.empty\<rparr> s"
  by (induction rule: reachable.induct)
    (blast intro: rtranclp.rtrancl_refl rtranclp.rtrancl_into_rtrancl step.intros)+

lemma step_error_ok:
  assumes "step s s'" and inv: "\<And>j. registry s jid = Some j \<Longrightarrow> error_ok (threads s jid) j"
    and r: "registry s' jid = Some j'"
  shows "error_ok (threads s' jid) j'"
proof (cases "registry s jid")
  case None
  from step_new [OF assms(1) None r] show ?thesis
    by (auto simp: error_ok_def new_job_def)
next
  case (Some j)
  from inv [OF Some] step_at [OF assms(1) Some] r show ?thesis
    unfolding error_ok_def by (elim disjE conjE exE) (auto split: if_splits)
qed

lemma reachable_error_ok:
  assumes "reachable s" "registry s jid = Some j"
  shows "error_ok (threads s jid) j"
  using reachable_from_init [OF assms(1)] assms(2)
proof (induction arbitrary: j rule: rtranclp_induct)
  case base
  then show ?case by simp
next
  case (step y z)
  show ?case by (rule step_error_ok [OF step.hyps(2) step.IH step.prems])
qed

lemma step_done_keeps:
  assumes "step s s'" "threads s jid = Some Done" "registry s jid = Some j"
  shows "threads s' jid = Some Done \<and> registry s' jid = Some j"
  using step_at [OF assms(1) assms(3)] assms(2) by auto

lemma steps_done_keep:
  assumes "step\<^sup>*\<^sup>* s s'" "threads s jid = Some Done" "registry s jid = Some j"
  shows "threads s' jid = Some Done \<and> registry s' jid = Some j"
  using assms
proof (induction rule: rtranclp_induct)
  case base
  then show ?case by simp
next
  case (step y z)
  then show ?case using step_done_keeps [of y z jid j] by blast
qed

lemma fetching_reachable: "reachable fetching_system"
proof -
  let ?s0 = "\<lparr>registry = Map.empty, threads = Map.empty\<rparr> :: system"
  let ?s1 = "\<lparr>registry = api_download ''j'' 0 (registry ?s0),
              threads = (threads ?s0)(''j'' \<mapsto> Spawned)\<rparr>"
  let ?s2 = "\<lparr>registry = set_starting ''j'' (registry ?s1),
              threads = (threads ?s1)(''j'' \<mapsto> Fetching)\<rparr>"
  have "reachable ?s1" by (rule reachable.submit [OF reachable.init]) simp_all
  then have "reachable ?s2" by (rule reachable.start) simp
  moreover have "?s2 = fetching_system" by (simp add: fetching_system_def)
  ultimately show ?thesis by simp
qed

lemma failed_step: "step fetching_system failed_system"
  unfolding failed_system_def by (rule step.raised) (simp add: fetching_system_def)

lemma later_step: "step failed_system later_system"
  unfolding later_system_def
  by (rule step.submit) (simp_all add: failed_system_def fetching_system_def
      set_error_def set_starting_def api_download_def)

lemma failed_job:
  "registry fetching_system ''j'' = Some ((new_job ''j'' 0)\<lparr>state := Starting, progress := Some 0\<rparr>)"
  "registry failed_system ''j''
     = Some ((new_job ''j'' 0)\<lparr>state := Error, progress := Some 0, error := Some ''boom''\<rparr>)"
  "threads failed_system ''j'' = Some Done"
  by (simp_all add: failed_system_def fetching_system_def set_error_def set_starting_def
      api_download_def new_job_def)

text \<open>
  C5, as the code has it, over every interleaving of the locked updates of any number of
  jobs and of retrievals. The error field of a job record is unset as long as the job's
  thread has not made its last update, so the update that stores \<open>None\<close> with a
  found file clears nothing. In every reachable state the field is set exactly when the
  record is in state \<open>error\<close>, or in state \<open>finished\<close> and not ready. A step sets
  the field only as the thread's last update: on entering \<open>error\<close>, or on entering
  \<open>finished\<close> with no file found, then with the fixed text. Once the field is set, no
  sequence of steps changes the record, so the error is never cleared.
\<close>

theorem error_set_at_end_and_kept:
  assumes "reachable s" "registry s jid = Some j"
  shows "(threads s jid \<noteq> Some Done \<longrightarrow> error j = None)
    \<and> (error j \<noteq> None \<longleftrightarrow> state j = Error \<or> state j = Finished \<and> \<not> ready j)
    \<and> (\<forall>s'. step s s' \<and> error j = None \<longrightarrow>
          (\<exists>j'. registry s' jid = Some j'
             \<and> (error j' \<noteq> None \<longrightarrow>
                  threads s' jid = Some Done
                  \<and> (state j' = Error
                      \<or> state j' = Finished \<and> \<not> ready j'
                          \<and> error j' = Some ''File not found after download''))))
    \<and> (\<forall>s'. step\<^sup>*\<^sup>* s s' \<and> error j \<noteq> None \<longrightarrow> registry s' jid = Some j)"
proof -
  note ok = reachable_error_ok [OF assms]
  have 1: "threads s jid \<noteq> Some Done \<longrightarrow> error j = None"
    using ok by (simp add: error_ok_def)
  have 2: "error j \<noteq> None \<longleftrightarrow> state j = Error \<or> state j = Finished \<and> \<not> ready j"
    using ok by (auto simp: error_ok_def split: if_splits)
  have 3: "\<exists>j'. registry s' jid = Some j'
             \<and> (error j' \<noteq> None \<longrightarrow>
                  threads s' jid = Some Done
                  \<and> (state j' = Error
                      \<or> state j' = Finished \<and> \<not> ready j'
                          \<and> error j' = Some ''File not found after download''))"
    if "step s s'" "error j = None" for s'
    using step_at [OF that(1) assms(2)] that(2) by (elim disjE conjE exE) auto
  have 4: "registry s' jid = Some j" if "step\<^sup>*\<^sup>* s s'" "error j \<noteq> None" for s'
  proof -
    from 1 that(2) have "threads s jid = Some Done" by blast
    from steps_done_keep [OF that(1) this assms(2)] show ?thesis by simp
  qed
  from 1 2 3 4 show ?thesis by blast
qed

theorem error_set_at_end_and_kept_witness:
  "reachable fetching_system
   \<and> map_option error (registry fetching_system ''j'') = Some None
   \<and> step fetching_system failed_system
   \<and> threads failed_system ''j'' = Some Done
   \<and> map_option (\<lambda>j. (state j, error j)) (registry failed_system ''j'')
       = Some (Error, Some ''boom'')
   \<and> reachable failed_system
   \<and> step\<^sup>*\<^sup>* failed_system later_system
   \<and> map_option error (registry later_system ''j'') = Some (Some ''boom'')"
proof -
  have r: "reachable failed_system"
    by (rule reachable_step [OF failed_step fetching_reachable])
  have l: "step\<^sup>*\<^sup>* failed_system later_system"
    using later_step by (rule r_into_rtranclp)
  have e: "error ((new_job ''j'' 0)\<lparr>state := Error, progress := Some 0, error := Some ''boom''\<rparr>)
      \<noteq> None" by simp
  from error_set_at_end_and_kept [OF r failed_job(2)] l e
  have "registry later_system ''j''
     = Some ((new_job ''j'' 0)\<lparr>state := Error, progress := Some 0, error := Some ''boom''\<rparr>)"
    by blast
  then show ?thesis using fetching_reachable failed_step failed_job r l
    by (simp add: new_job_def)
qed


text \<open>
  C5 as stated fails: when the fetcher returns and the resolver finds no file, the record
  enters \<open>finished\<close>, not \<open>error\<close>, and its error field is set.
\<close>

theorem run_error_counterexample:
  "map_option (\<lambda>j. (state j, ready j, error j))
     (run_download [] ''j'' default_payload [] (Returned empty_info)
        (api_download ''j'' 0 Map.empty) ''j'')
   = Some (Finished, False, Some ''File not found after download'')"
  by (simp add: run_download_def run_simps finish_def resolve_final_file_def find_final_file_def
      title_candidates_def py_or_def strip_def strip_chars_def glob_def empty_info_def
      new_job_def Let_def default_payload_def selection_of_def merge_of_def audio_fmt_of_def)

subsection \<open>Snapshots\<close>

text \<open>
  C6: in every reachable system state, that is after any interleaving of the locked
  updates of any number of jobs and of retrievals, no job record is ready without a file,
  and none is ready with an error set. A status read returns the fields of such a record.
\<close>

theorem snapshot_consistent:
  assumes "reachable s"
  shows "(\<forall>j. registry s jid = Some j \<longrightarrow>
            \<not> (ready j \<and> job_file j = None) \<and> \<not> (error j \<noteq> None \<and> ready j))
    \<and> (\<forall>v. api_status (registry s) jid = Ok200 v \<longrightarrow> \<not> (v_error v \<noteq> None \<and> v_ready v))"
proof -
  have r: "\<not> (ready j \<and> job_file j = None) \<and> \<not> (error j \<noteq> None \<and> ready j)"
    if "registry s jid = Some j" for j
    using sys_okD [OF reachable_sys_ok [OF assms] that]
    by (auto simp: job_ok_def split: if_splits)
  have "\<not> (v_error v \<noteq> None \<and> v_ready v)" if "api_status (registry s) jid = Ok200 v" for v
  proof (cases "registry s jid")
    case None
    with that show ?thesis by (simp add: api_status_def)
  next
    case (Some j)
    with that have "v_error v = error j" "v_ready v = ready j"
      by (auto simp: api_status_def)
    with r [OF Some] show ?thesis by simp
  qed
  with r show ?thesis by blast
qed

text \<open>The sample system state is reachable, and its job is ready.\<close>

lemmas fs_simps = find_final_file_def glob_def child_name_def fnmatch_def bracket_item_def
  startswith_def DOWNLOAD_DIR_def Path_def path_str_def file_entry_def exists_def

lemma sample_job:
  "map_option (\<lambda>j. (state j, ready j, job_file j, error j)) (registry sample_system ''j'')
     = Some (Finished, True, Some ''downloads/clip-abc.mp4'', None)"
  by (simp add: sample_system_def sample_fs_def run_simps ev_simps finish_def
      resolve_final_file_def py_or_def fs_simps default_payload_def selection_of_def
      merge_of_def audio_fmt_of_def)

lemma sample_reachable: "reachable sample_system"
proof -
  let ?s0 = "\<lparr>registry = Map.empty, threads = Map.empty\<rparr> :: system"
  let ?s1 = "\<lparr>registry = api_download ''j'' 0 (registry ?s0),
              threads = (threads ?s0)(''j'' \<mapsto> Spawned)\<rparr>"
  let ?s2 = "\<lparr>registry = set_starting ''j'' (registry ?s1),
              threads = (threads ?s1)(''j'' \<mapsto> Fetching)\<rparr>"
  let ?s3 = "?s2\<lparr>registry := apply_callback ''j''
              (Progress (progress_event ''finished'' (Some ''abc'') 100 100)) (registry ?s2)\<rparr>"
  let ?s4 = "\<lparr>registry = store_merge_ext ''j'' default_payload (registry ?s3),
              threads = (threads ?s3)(''j'' \<mapsto> Resolving empty_info)\<rparr>"
  let ?s5 = "\<lparr>registry = finish sample_fs ''j'' default_payload empty_info (registry ?s4),
              threads = (threads ?s4)(''j'' \<mapsto> Done)\<rparr>"
  have "reachable ?s1" by (rule reachable.submit [OF reachable.init]) simp_all
  then have "reachable ?s2" by (rule reachable.start) simp
  then have "reachable ?s3" by (rule reachable.callback [where jid="''j''"]) simp
  then have "reachable ?s4" by (rule reachable.returned) simp
  then have "reachable ?s5" by (rule reachable.finished [where info=empty_info]) simp
  moreover have "?s5 = sample_system" by (simp add: sample_system_def)
  ultimately show ?thesis by simp
qed

theorem snapshot_consistent_witness:
  "reachable sample_system
   \<and> map_option (\<lambda>j. (ready j, job_file j, error j)) (registry sample_system ''j'')
       = Some (True, Some ''downloads/clip-abc.mp4'', None)
   \<and> (\<exists>j. registry sample_system ''j'' = Some j
          \<and> \<not> (ready j \<and> job_file j = None) \<and> \<not> (error j \<noteq> None \<and> ready j))
   \<and> (\<exists>v. api_status (registry sample_system) ''j'' = Ok200 v
          \<and> v_ready v \<and> v_error v = None)"
proof -
  from sample_job obtain j where j: "registry sample_system ''j'' = Some j" "ready j"
    "error j = None" by auto
  have v: "\<exists>v. api_status (registry sample_system) ''j'' = Ok200 v \<and> v_ready v \<and> v_error v = None"
    using j by (simp add: api_status_def)
  from snapshot_consistent [OF sample_reachable, of "''j''"] j sample_reachable sample_job v
  show ?thesis by blast
qed

subsection \<open>Retrieval\<close>

text \<open>
  C8: retrieval answers not found for an unknown job, not ready (conflict) for a job
  that is not ready, and gone for a ready job whose file is no longer on disk; it never
  changes the registry.
\<close>

theorem api_file_signals:
  "(js jid = None \<longrightarrow> fst (api_file fs method jid js) = NotFound404)
   \<and> (\<forall>job. js jid = Some job \<and> \<not> ready job \<longrightarrow>
         fst (api_file fs method jid js) = Conflict409)
   \<and> (\<forall>job p. js jid = Some job \<and> ready job \<and> job_file job = Some p \<and> p \<noteq> []
         \<and> \<not> exists fs (Path p) \<longrightarrow> fst (api_file fs method jid js) = Gone410)
   \<and> snd (api_file fs method jid js) = js"
  by (simp add: api_file_def Let_def split: option.splits)

theorem api_file_signals_witness:
  "fst (api_file [] GET ''nobody'' (registry sample_system)) = NotFound404
   \<and> fst (api_file [] GET ''j'' (api_download ''j'' 0 Map.empty)) = Conflict409
   \<and> fst (api_file [] GET ''j'' (registry sample_system)) = Gone410
   \<and> fst (api_file sample_fs GET ''j'' (registry sample_system))
       = Ok200 (Attachment ''downloads/clip-abc.mp4'')
   \<and> snd (api_file [] GET ''j'' (registry sample_system)) = registry sample_system"
proof -
  from sample_job obtain j where j: "registry sample_system ''j'' = Some j" "ready j"
    "job_file j = Some ''downloads/clip-abc.mp4''" by auto
  have n: "registry sample_system ''nobody'' = None"
    by (simp add: sample_system_def finish_def store_merge_ext_def hook_def set_starting_def
        api_download_def set_error_def split: option.splits sum.splits)
  have q: "api_download ''j'' 0 Map.empty ''j'' = Some (new_job ''j'' 0)"
    "\<not> ready (new_job ''j'' 0)" by (simp_all add: api_download_def new_job_def)
  have e: "\<not> exists [] (Path ''downloads/clip-abc.mp4'')" by (simp add: exists_def)
  have ok: "fst (api_file sample_fs GET ''j'' (registry sample_system))
       = Ok200 (Attachment ''downloads/clip-abc.mp4'')"
    using j by (simp add: api_file_def Let_def sample_fs_def fs_simps)
  from api_file_signals [of "registry sample_system" "''nobody''" "[]" GET]
    api_file_signals [of "api_download ''j'' 0 Map.empty" "''j''" "[]" GET]
    api_file_signals [of "registry sample_system" "''j''" "[]" GET]
    n q e j ok
  show ?thesis by auto
qed

subsection \<open>The output resolver\<close>

text \<open>
  C1 at a concrete output directory. The pattern handed to \<open>glob\<close> is
  \<open>*[abc].*\<close> for the identifier \<open>abc\<close>; in a glob pattern the brackets open a
  character class. The file the output template produces, \<open>My Video [abc].mp4\<close>, is
  not matched, and \<open>music.mp4\<close>, which does not contain \<open>[abc]\<close>, is.
\<close>

theorem find_final_file_brackets_are_a_class:
  "find_final_file [file_entry ''downloads/My Video [abc].mp4'' 10] (Some ''abc'') = None
   \<and> find_final_file [file_entry ''downloads/My Video [abc].mp4'' 10,
                        file_entry ''downloads/music.mp4'' 3] (Some ''abc'')
       = Some (Path ''downloads/music.mp4'')"
  by (simp add: fs_simps)

text \<open>
  Among the entries the pattern does match, \<open>find_final_file\<close> returns one of
  greatest modification time.
\<close>

lemma max_mtime_mem: "max_mtime b xs \<in> set (b # xs)"
  by (induction xs arbitrary: b) auto

lemma max_mtime_ge: "x \<in> set (b # xs) \<Longrightarrow> e_mtime x \<le> e_mtime (max_mtime b xs)"
proof (induction xs arbitrary: b x)
  case Nil
  then show ?case by simp
next
  case (Cons y ys)
  let ?c = "if e_mtime b < e_mtime y then y else b"
  have base: "e_mtime ?c \<le> e_mtime (max_mtime ?c ys)"
    by (rule Cons.IH) simp
  show ?case
  proof (cases "x \<in> set ys")
    case True
    then have "e_mtime x \<le> e_mtime (max_mtime ?c ys)" by (intro Cons.IH) simp
    then show ?thesis by simp
  next
    case False
    with Cons.prems have "x = b \<or> x = y" by auto
    then have "e_mtime x \<le> e_mtime ?c" by auto
    with base show ?thesis by simp
  qed
qed

lemma find_final_file_newest:
  assumes "find_final_file fs (Some v) = Some p"
  shows "\<exists>e \<in> set (glob fs (''*['' @ v @ ''].*'')). p = Path (e_path e)
     \<and> (\<forall>e' \<in> set (glob fs (''*['' @ v @ ''].*'')). e_mtime e' \<le> e_mtime e)"
proof (cases "glob fs (''*['' @ v @ ''].*'')")
  case Nil
  with assms show ?thesis by (simp add: find_final_file_def split: if_splits)
next
  case (Cons m ms)
  with assms have p: "p = Path (e_path (max_mtime m ms))"
    by (simp add: find_final_file_def split: if_splits)
  show ?thesis unfolding Cons
    using max_mtime_mem [of m ms] max_mtime_ge [of _ m ms] p by blast
qed

text \<open>
  The order of the cascade: when the identifier scan yields a path that exists, the
  resolver returns it, whatever the hints, the title, the selection and the formats are.
\<close>

lemma resolve_scan_first:
  assumes "find_final_file fs (py_or (video_id job) (info_id info)) = Some p" "exists fs p"
  shows "resolve_final_file fs info job selection audio_fmt merge = Inr (Some p)"
  using assms by (simp add: resolve_final_file_def Let_def)

lemmas path_simps = with_suffix_def path_name_def path_suffix_def hint_candidates_def

text \<open>
  C2 at a concrete output directory. The job has the identifier \<open>abc\<close> and a
  post-process hint; on disk are \<open>My Video [abc].mp4\<close>, whose name carries the
  bracketed identifier, and the hinted file. The scan of step 1 reads the brackets of its
  pattern as a character class and finds nothing, so the resolver goes on to step 2 and
  returns the hinted file, not the file with the identifier.
\<close>

theorem resolve_misses_bracketed_file:
  "video_id hinted_job = Some ''abc''
   \<and> pp_filename hinted_job = Some ''downloads/hint.webm''
   \<and> exists bracket_fs (Path ''downloads/My Video [abc].mp4'')
   \<and> exists bracket_fs (Path ''downloads/hint.webm'')
   \<and> find_final_file bracket_fs (py_or (video_id hinted_job) (info_id empty_info)) = None
   \<and> resolve_final_file bracket_fs empty_info hinted_job ''4'' ''m4a'' ''mp4''
       = Inr (Some (Path ''downloads/hint.webm''))"
proof -
  have a: "video_id hinted_job = Some ''abc''" "pp_filename hinted_job = Some ''downloads/hint.webm''"
    by (simp_all add: hinted_job_def)
  have b: "exists bracket_fs (Path ''downloads/My Video [abc].mp4'')"
    "exists bracket_fs (Path ''downloads/hint.webm'')"
    by (simp_all add: bracket_fs_def fs_simps)
  have c: "find_final_file bracket_fs (py_or (video_id hinted_job) (info_id empty_info)) = None"
    by (simp add: bracket_fs_def hinted_job_def new_job_def py_or_def fs_simps)
  have d: "resolve_final_file bracket_fs empty_info hinted_job ''4'' ''m4a'' ''mp4''
       = Inr (Some (Path ''downloads/hint.webm''))"
    unfolding resolve_final_file_def Let_def c
    by (simp add: bracket_fs_def hinted_job_def new_job_def py_or_def empty_info_def
        path_simps fs_simps)
  from a b c d show ?thesis by simp
qed






subsection \<open>URL normalisation\<close>

lemma not_id_char:
  "\<not> id_char CHR ''#''" "\<not> id_char CHR ''?''" "\<not> id_char CHR ''&''" "\<not> id_char CHR ''%''"
  "\<not> id_char CHR ''+''" "\<not> id_char CHR ''=''" "\<not> id_char CHR 0x09" "\<not> id_char CHR 0x0A"
  "\<not> id_char CHR 0x0D"
  by (simp_all add: id_char_def ascii_letters_def)

lemma id_chars_absent:
  assumes "list_all id_char vid"
  shows "CHR ''#'' \<notin> set vid" "CHR ''?'' \<notin> set vid" "CHR ''&'' \<notin> set vid"
    "CHR ''%'' \<notin> set vid" "CHR ''+'' \<notin> set vid" "CHR ''='' \<notin> set vid"
    "CHR 0x09 \<notin> set vid" "CHR 0x0A \<notin> set vid" "CHR 0x0D \<notin> set vid"
  using assms not_id_char unfolding list_all_iff by blast+

lemma split_on_absent: "c \<notin> set s \<Longrightarrow> split_on c s = [s]"
  by (induction s) auto

lemma before_absent: "c \<notin> set s \<Longrightarrow> before c s = s"
  unfolding before_def by (induction s) auto

lemma after_absent: "c \<notin> set s \<Longrightarrow> after c s = []"
  unfolding after_def by (induction s) auto

lemma before_Cons: "before c (x # s) = (if x = c then [] else x # before c s)"
  by (simp add: before_def)

lemma after_Cons: "after c (x # s) = (if x = c then s else after c s)"
  by (simp add: after_def)

lemma filter_controls:
  assumes "CHR 0x09 \<notin> set s" "CHR 0x0A \<notin> set s" "CHR 0x0D \<notin> set s"
  shows "filter (\<lambda>c. c \<notin> {CHR 0x09, CHR 0x0D, CHR 0x0A}) s = s"
  using assms by (induction s) auto


lemma unquote_plain: "CHR ''%'' \<notin> set s \<Longrightarrow> unquote s = s"
proof (induction s rule: unquote.induct)
  case (4 c a b rest)
  from "4.prems" have c: "c \<noteq> CHR ''%''" and r: "CHR ''%'' \<notin> set (a # b # rest)" by auto
  from "4.IH" c r have "unquote (a # b # rest) = a # b # rest" by blast
  with c show ?case by simp
qed simp_all

lemma unquote_plus_plain:
  assumes "CHR ''%'' \<notin> set s" "CHR ''+'' \<notin> set s"
  shows "unquote_plus s = s"
proof -
  have "map (\<lambda>c. if c = CHR ''+'' then CHR '' '' else c) s = s"
    using assms(2) by (induction s) auto
  then show ?thesis using assms(1) by (simp add: unquote_plus_def unquote_plain)
qed


lemma filter_controls':
  assumes "CHR 0x09 \<notin> set s" "CHR 0x0A \<notin> set s" "CHR 0x0D \<notin> set s"
  shows "filter (\<lambda>c. c \<noteq> CHR 0x09 \<and> c \<noteq> CHR 0x0D \<and> c \<noteq> CHR 0x0A) s = s"
  using assms by (induction s) auto

lemma urlsplit_watch_url:
  assumes "list_all id_char vid"
  shows "urlsplit host_ok (watch_url vid)
     = Inr \<lparr>u_scheme = ''https'', u_netloc = ''www.youtube.com'', u_path = ''/watch'',
            u_params = [], u_query = ''v='' @ vid, u_fragment = []\<rparr>"
proof -
  note a = id_chars_absent [OF assms]
  have url1: "filter (\<lambda>c. c \<notin> {CHR 0x09, CHR 0x0D, CHR 0x0A})
                (dropWhile (\<lambda>c. of_char c \<le> (32 :: nat)) (watch_url vid)) = watch_url vid"
    using a by (simp add: watch_url_def filter_controls')
  have pre: "before CHR '':'' (watch_url vid) = ''https''"
    by (simp add: watch_url_def before_Cons)
  have rest: "after CHR '':'' (watch_url vid) = ''//www.youtube.com/watch?v='' @ vid"
    by (simp add: watch_url_def after_Cons)
  have colon: "CHR '':'' \<in> set (watch_url vid)" "hd (watch_url vid) = CHR ''h''"
    by (simp_all add: watch_url_def)
  have sch: "list_all (\<lambda>c. c \<in> set scheme_chars) ''https''" "CHR ''h'' \<in> set ascii_letters"
    "lower ''https'' = ''https''"
    by (simp_all add: scheme_chars_def ascii_letters_def lower_def lower_char_def)
  have nl: "takeWhile (\<lambda>c. c \<notin> set ''/?#'') (drop 2 (''//www.youtube.com/watch?v='' @ vid))
      = ''www.youtube.com''"
    "dropWhile (\<lambda>c. c \<notin> set ''/?#'') (drop 2 (''//www.youtube.com/watch?v='' @ vid))
      = ''/watch?v='' @ vid"
    "startswith (''//www.youtube.com/watch?v='' @ vid) ''//''"
    by (simp_all add: startswith_def)
  have parts: "before CHR ''#'' (''/watch?v='' @ vid) = ''/watch?v='' @ vid"
    "after CHR ''#'' (''/watch?v='' @ vid) = []"
    "before CHR ''?'' (''/watch?v='' @ vid) = ''/watch''"
    "after CHR ''?'' (''/watch?v='' @ vid) = ''v='' @ vid"
    using a by (simp_all add: before_Cons after_Cons before_absent after_absent)
  show ?thesis
    unfolding urlsplit_def Let_def url1 pre rest
    using a colon sch
    by (simp add: startswith_def before_Cons after_Cons before_absent after_absent)
qed


lemma urlparse_watch_url:
  assumes "list_all id_char vid"
  shows "urlparse host_ok (watch_url vid)
     = Inr \<lparr>u_scheme = ''https'', u_netloc = ''www.youtube.com'', u_path = ''/watch'',
            u_params = [], u_query = ''v='' @ vid, u_fragment = []\<rparr>"
  by (simp add: urlparse_def urlsplit_watch_url [OF assms])

lemma parse_qs_v:
  assumes "list_all id_char vid" "vid \<noteq> []"
  shows "parse_qs (''v='' @ vid) ''v'' = Some [vid]"
proof -
  note a = id_chars_absent [OF assms(1)]
  have s: "split_on CHR ''&'' (''v='' @ vid) = [''v='' @ vid]"
    by (rule split_on_absent) (simp add: a)
  have f: "parse_field (''v='' @ vid) = [(''v'', vid)]"
    using a assms(2)
    by (simp add: parse_field_def before_Cons after_Cons unquote_plus_plain)
  show ?thesis unfolding parse_qs_def parse_qsl_def s Let_def using f by simp
qed

lemma normalize_watch_url:
  assumes "list_all id_char vid" "vid \<noteq> []"
  shows "normalize_youtube_url host_ok (watch_url vid) = watch_url vid"
proof -
  have h: "lower ''www.youtube.com'' = ''www.youtube.com''"
    by (simp add: lower_def lower_char_def)
  have c: "\<not> contains ''www.youtube.com'' ''youtu.be''" "contains ''www.youtube.com'' ''youtube.com''"
    by (simp_all add: startswith_def)
  have p: "\<not> startswith ''/watch'' ''/shorts/''" "startswith ''/watch'' ''/watch''"
    by (simp_all add: startswith_def)
  show ?thesis
    unfolding normalize_youtube_url_def urlparse_watch_url [OF assms(1)] Let_def
    using h c p parse_qs_v [OF assms] by simp
qed

text \<open>
  C10, as the code has it. Normalisation returns for every input: an exception of
  \<open>urlparse\<close> gives the input back. The input is returned unchanged when the
  lower-cased network location contains neither \<open>youtu.be\<close> nor \<open>youtube.com\<close>
  as a substring. The result is the input or a watch URL, and normalising twice gives
  the same as once when the first result is the input itself or a watch URL whose
  identifier is made of letters, digits, \<open>_\<close> and \<open>-\<close>.
\<close>

theorem normalize_amended:
  "(\<forall>e. urlparse host_ok u = Inl e \<longrightarrow> normalize_youtube_url host_ok u = u)
   \<and> (\<forall>p. urlparse host_ok u = Inr p \<and> \<not> contains (lower (u_netloc p)) ''youtu.be''
          \<and> \<not> contains (lower (u_netloc p)) ''youtube.com'' \<longrightarrow>
          normalize_youtube_url host_ok u = u)
   \<and> (normalize_youtube_url host_ok u = u
       \<or> (\<exists>vid. normalize_youtube_url host_ok u = watch_url vid))
   \<and> (normalize_youtube_url host_ok u = u
       \<or> (\<exists>vid. vid \<noteq> [] \<and> list_all id_char vid
              \<and> normalize_youtube_url host_ok u = watch_url vid) \<longrightarrow>
       normalize_youtube_url host_ok (normalize_youtube_url host_ok u)
         = normalize_youtube_url host_ok u)"
proof -
  have 1: "\<forall>e. urlparse host_ok u = Inl e \<longrightarrow> normalize_youtube_url host_ok u = u"
    by (simp add: normalize_youtube_url_def)
  have 2: "\<forall>p. urlparse host_ok u = Inr p \<and> \<not> contains (lower (u_netloc p)) ''youtu.be''
          \<and> \<not> contains (lower (u_netloc p)) ''youtube.com'' \<longrightarrow>
          normalize_youtube_url host_ok u = u"
    by (simp add: normalize_youtube_url_def Let_def)
  have 3: "normalize_youtube_url host_ok u = u
       \<or> (\<exists>vid. normalize_youtube_url host_ok u = watch_url vid)"
    unfolding normalize_youtube_url_def Let_def
    by (auto split: sum.splits option.splits)
  have 4: "normalize_youtube_url host_ok u = u
       \<or> (\<exists>vid. vid \<noteq> [] \<and> list_all id_char vid
              \<and> normalize_youtube_url host_ok u = watch_url vid) \<longrightarrow>
       normalize_youtube_url host_ok (normalize_youtube_url host_ok u)
         = normalize_youtube_url host_ok u"
    using normalize_watch_url by auto
  from 1 2 3 4 show ?thesis by blast
qed

theorem normalize_amended_witness:
  "urlparse reject_host ''http://['' = Inl (ValueError ''Invalid IPv6 URL'')
   \<and> normalize_youtube_url reject_host ''http://['' = ''http://[''
   \<and> urlparse reject_host ''https://example.com/watch?v=1''
       = Inr \<lparr>u_scheme = ''https'', u_netloc = ''example.com'', u_path = ''/watch'',
              u_params = [], u_query = ''v=1'', u_fragment = []\<rparr>
   \<and> \<not> contains (lower ''example.com'') ''youtu.be''
   \<and> \<not> contains (lower ''example.com'') ''youtube.com''
   \<and> normalize_youtube_url reject_host ''https://example.com/watch?v=1''
       = ''https://example.com/watch?v=1''
   \<and> ''abc123'' \<noteq> [] \<and> list_all id_char ''abc123''
   \<and> normalize_youtube_url reject_host ''https://youtu.be/abc123'' = watch_url ''abc123''
   \<and> normalize_youtube_url reject_host
         (normalize_youtube_url reject_host ''https://youtu.be/abc123'')
       = normalize_youtube_url reject_host ''https://youtu.be/abc123''"
proof -
  have a: "urlparse reject_host ''http://['' = Inl (ValueError ''Invalid IPv6 URL'')"
    by code_simp
  have b: "urlparse reject_host ''https://example.com/watch?v=1''
       = Inr \<lparr>u_scheme = ''https'', u_netloc = ''example.com'', u_path = ''/watch'',
              u_params = [], u_query = ''v=1'', u_fragment = []\<rparr>"
    by code_simp
  have c: "\<not> contains (lower ''example.com'') ''youtu.be''"
    "\<not> contains (lower ''example.com'') ''youtube.com''"
    by code_simp+
  have d: "''abc123'' \<noteq> []" "list_all id_char ''abc123''"
    by code_simp+
  have e: "normalize_youtube_url reject_host ''https://youtu.be/abc123'' = watch_url ''abc123''"
    by code_simp
  have A: "normalize_youtube_url reject_host ''http://['' = ''http://[''"
    using normalize_amended [of reject_host "''http://[''"] a by blast
  have B: "normalize_youtube_url reject_host ''https://example.com/watch?v=1''
       = ''https://example.com/watch?v=1''"
  proof -
    let ?p = "\<lparr>u_scheme = ''https'', u_netloc = ''example.com'', u_path = ''/watch'',
              u_params = [], u_query = ''v=1'', u_fragment = []\<rparr>"
    have n: "u_netloc ?p = ''example.com''" by simp
    have "urlparse reject_host ''https://example.com/watch?v=1'' = Inr ?p
        \<and> \<not> contains (lower (u_netloc ?p)) ''youtu.be''
        \<and> \<not> contains (lower (u_netloc ?p)) ''youtube.com''"
      unfolding n using b c by blast
    with normalize_amended [of reject_host "''https://example.com/watch?v=1''"]
    show ?thesis by blast
  qed
  have C: "normalize_youtube_url reject_host
         (normalize_youtube_url reject_host ''https://youtu.be/abc123'')
       = normalize_youtube_url reject_host ''https://youtu.be/abc123''"
    using normalize_amended [of reject_host "''https://youtu.be/abc123''"] d e by blast
  from a b c d e A B C show ?thesis by blast
qed

text \<open>
  C10 as stated fails. The identifier \<open>a+b\<close> of a short link is copied into the
  query of the watch URL, where a second normalisation decodes the plus sign to a space:
  twice is not once. And a host that merely contains \<open>youtube.com\<close>, such as
  \<open>notyoutube.com\<close>, is rewritten.
\<close>

theorem normalize_counterexample:
  "normalize_youtube_url reject_host ''https://youtu.be/a+b''
     = ''https://www.youtube.com/watch?v=a+b''
   \<and> normalize_youtube_url reject_host
       (normalize_youtube_url reject_host ''https://youtu.be/a+b'')
     = ''https://www.youtube.com/watch?v=a b''
   \<and> normalize_youtube_url reject_host ''https://notyoutube.com/watch?v=x&t=1''
     = ''https://www.youtube.com/watch?v=x''"
  by code_simp

end
